theory Spec2Isabelle
  imports Complex_Main "HOL-Library.Sublist"
begin

section \<open>Engram Trace Lite: the consolidation engine\<close>

text \<open>
  A shallow embedding of the type definitions and of the consolidator
  (\<^verbatim>\<open>cosineSimilarity\<close>, \<^verbatim>\<open>decay\<close>, \<^verbatim>\<open>deduplicate\<close>, \<^verbatim>\<open>cluster\<close>,
  \<^verbatim>\<open>forget\<close>, \<^verbatim>\<open>summarizeClusters\<close>, \<^verbatim>\<open>archive\<close>, \<^verbatim>\<open>consolidate\<close>).

  Numbers. A finite TypeScript \<^verbatim>\<open>number\<close> is modelled as the \<^typ>\<open>real\<close> that it holds.
  The arithmetic of the effective age (in \<^verbatim>\<open>decay\<close>) and of the score (in \<^verbatim>\<open>deduplicate\<close> and
  \<^verbatim>\<open>summarizeClusters\<close>) rounds: an operation gives \<open>rnd\<close> of the exact result, where
  \<open>rnd\<close>, the rounding of the machine to the nearest representable number, is the first
  parameter of every function that computes one of the two, and a decimal literal that is not
  representable (\<^verbatim>\<open>0.1\<close>) is \<open>rnd\<close> of its value. Nothing is assumed of \<open>rnd\<close>: what is
  proved holds for the rounding of IEEE 754 and for exact arithmetic alike. The unguarded
  division of \<^verbatim>\<open>decay\<close> has the results that the source's arithmetic gives for a zero
  divisor, see \<open>js_div\<close>. Overflow to an infinity, and NaN or infinite inputs, are outside
  the model. The similarity of two embeddings is computed with exact arithmetic, and the
  literals \<^verbatim>\<open>0.92\<close> and \<^verbatim>\<open>0.78\<close> that it is compared with are the decimals that they
  denote; the other functions read the similarity in comparisons with a threshold only.

  Undefined. A field of a configuration can be absent, or present with the value
  \<^verbatim>\<open>undefined\<close>, or present with a number; the merge over the defaults keeps the three apart,
  see \<open>over\<close>. A number that may be undefined is a \<^typ>\<open>real option\<close>, and a comparison with
  it is false when it is undefined, see \<open>js_compare\<close>.

  Strings. A string is a \<^typ>\<open>string\<close> whose elements stand for the code units that
  \<^verbatim>\<open>length\<close> and \<^verbatim>\<open>slice\<close> count.

  Time and the summarizer. The clock readings (\<^verbatim>\<open>Date.now()\<close>, \<^verbatim>\<open>toISOString()\<close>), the
  parsing of a timestamp (\<^verbatim>\<open>new Date(s).getTime()\<close>) and the Summarizer are parameters.

  Arguments. A parameter with a default value (\<^verbatim>\<open>threshold = 0.92\<close>) is a parameter of the
  model and the caller passes the default, also when the argument of the source is undefined,
  see \<open>default_arg\<close>. An optional configuration is a record of optional fields, merged over
  \<open>DEFAULTS\<close>; the absent configuration is the record whose fields are all absent.

  Results. A function that can throw returns \<open>error + result\<close>; \<open>Inl\<close> is the exception.
\<close>

section \<open>The program\<close>

subsection \<open>Types\<close>

datatype MemoryTier = Hot | Warm | Cold | Archive

text \<open>A value of a metadata map (\<^verbatim>\<open>unknown\<close> in the source).\<close>

datatype jsval = VBool bool | VNum real | VStr string

text \<open>
  An object with string keys, in insertion order: \<^verbatim>\<open>{...o, k: v}\<close> overwrites an existing
  key in place and appends a new one.
\<close>

type_synonym jsobject = "(string \<times> jsval) list"

fun obj_set :: "string \<Rightarrow> jsval \<Rightarrow> jsobject \<Rightarrow> jsobject" where
  "obj_set k v [] = [(k, v)]"
| "obj_set k v (p # ps) = (if fst p = k then (k, v) # ps else p # obj_set k v ps)"

text \<open>Spreading an optional object: \<^verbatim>\<open>{...undefined}\<close> is the empty object.\<close>

fun spread :: "jsobject option \<Rightarrow> jsobject" where
  "spread None = []"
| "spread (Some ob) = ob"

record Memory =
  id_m :: string
  content :: string
  embedding :: "real list"
  tags :: "string list"
  importance :: real
  tier :: MemoryTier
  createdAt :: string
  lastAccessed :: string
  accessCount :: real
  source :: "string option"
  metadata :: "jsobject option"

text \<open>
  An optional field \<^verbatim>\<open>k?: T\<close> of an object: the key is absent, or present with the value
  \<^verbatim>\<open>undefined\<close>, or present with a value of \<^verbatim>\<open>T\<close>.
\<close>

datatype 'a optional = Absent | Undefined | Given 'a

text \<open>The configuration as supplied: every field is optional.\<close>

record ConsolidateConfig =
  deduplicateThreshold :: "real optional"
  clusterThreshold :: "real optional"
  minClusterSize :: "real optional"
  hotDays :: "real optional"
  warmDays :: "real optional"
  coldDays :: "real optional"
  archiveTruncateLength :: "real optional"

text \<open>
  The configuration after \<^verbatim>\<open>{ ...DEFAULTS, ...config }\<close>: every key is present, and its value
  is a number or undefined (\<open>None\<close>).
\<close>

record Config =
  c_deduplicateThreshold :: "real option"
  c_clusterThreshold :: "real option"
  c_minClusterSize :: "real option"
  c_hotDays :: "real option"
  c_warmDays :: "real option"
  c_coldDays :: "real option"
  c_archiveTruncateLength :: "real option"

definition DEFAULTS :: Config where
  "DEFAULTS = \<lparr> c_deduplicateThreshold = Some (92 / 100), c_clusterThreshold = Some (78 / 100),
     c_minClusterSize = Some 3, c_hotDays = Some 7, c_warmDays = Some 30, c_coldDays = Some 365,
     c_archiveTruncateLength = Some 200 \<rparr>"

text \<open>
  One key of \<^verbatim>\<open>{ ...DEFAULTS, ...config }\<close>: the spread copies every key that is present in
  \<^verbatim>\<open>config\<close>, also one whose value is undefined, over the default.
\<close>

fun over :: "real option \<Rightarrow> real optional \<Rightarrow> real option" where
  "over d Absent = d"
| "over d Undefined = None"
| "over d (Given v) = Some v"

definition merge_config :: "ConsolidateConfig \<Rightarrow> Config" where
  "merge_config config =
     \<lparr> c_deduplicateThreshold = over (c_deduplicateThreshold DEFAULTS) (deduplicateThreshold config),
       c_clusterThreshold = over (c_clusterThreshold DEFAULTS) (clusterThreshold config),
       c_minClusterSize = over (c_minClusterSize DEFAULTS) (minClusterSize config),
       c_hotDays = over (c_hotDays DEFAULTS) (hotDays config),
       c_warmDays = over (c_warmDays DEFAULTS) (warmDays config),
       c_coldDays = over (c_coldDays DEFAULTS) (coldDays config),
       c_archiveTruncateLength = over (c_archiveTruncateLength DEFAULTS) (archiveTruncateLength config) \<rparr>"

text \<open>A merged configuration passed on to a phase, which merges it over the defaults again.\<close>

fun present :: "real option \<Rightarrow> real optional" where
  "present None = Undefined"
| "present (Some v) = Given v"

definition as_config :: "Config \<Rightarrow> ConsolidateConfig" where
  "as_config cfg =
     \<lparr> deduplicateThreshold = present (c_deduplicateThreshold cfg),
       clusterThreshold = present (c_clusterThreshold cfg),
       minClusterSize = present (c_minClusterSize cfg),
       hotDays = present (c_hotDays cfg),
       warmDays = present (c_warmDays cfg),
       coldDays = present (c_coldDays cfg),
       archiveTruncateLength = present (c_archiveTruncateLength cfg) \<rparr>"

text \<open>
  A relational comparison (\<^verbatim>\<open><\<close>, \<^verbatim>\<open><=\<close>, \<^verbatim>\<open>>\<close>, \<^verbatim>\<open>>=\<close>) of two numbers either of which may
  be undefined: undefined converts to NaN, and every comparison with NaN is false.
\<close>

fun js_compare :: "(real \<Rightarrow> real \<Rightarrow> bool) \<Rightarrow> real option \<Rightarrow> real option \<Rightarrow> bool" where
  "js_compare rel (Some x) (Some y) = rel x y"
| "js_compare rel _ _ = False"

text \<open>
  The value of a parameter with a default (\<^verbatim>\<open>threshold = 0.92\<close>) for an argument that may be
  undefined: the default stands in for undefined.
\<close>

fun default_arg :: "real \<Rightarrow> real option \<Rightarrow> real" where
  "default_arg d None = d"
| "default_arg d (Some v) = v"

text \<open>An exception that leaves a function of the source.\<close>

datatype error = TypeError

text \<open>
  The Summarizer is an external capability: a call takes the state of the outside world
  and the texts, and gives a result and the next state. \<open>Rejected\<close> stands for a rejected
  promise and for a call that throws.
\<close>

datatype summary_result = Rejected | Resolved string

type_synonym 's Summarizer = "'s \<Rightarrow> string list \<Rightarrow> summary_result \<times> 's"

subsection \<open>Math\<close>

text \<open>The loop of \<^verbatim>\<open>cosineSimilarity\<close>: the accumulators are \<open>(dot, normA, normB)\<close>.\<close>

fun cos_loop :: "real list \<Rightarrow> real list \<Rightarrow> real \<times> real \<times> real \<Rightarrow> real \<times> real \<times> real" where
  "cos_loop (x # xs) (y # ys) (dot, normA, normB) =
     cos_loop xs ys (dot + x * y, normA + x * x, normB + y * y)"
| "cos_loop _ _ acc = acc"

definition cosineSimilarity :: "real list \<Rightarrow> real list \<Rightarrow> real" where
  "cosineSimilarity a b =
     (if length a \<noteq> length b \<or> length a = 0 then 0
      else (case cos_loop a b (0, 0, 0) of (dot, normA, normB) \<Rightarrow>
        (let denom = sqrt normA * sqrt normB in
         if denom = 0 then 0 else dot / denom)))"

subsection \<open>Decay\<close>

text \<open>
  The quotient of two finite numbers. The source divides by \<^verbatim>\<open>1 + importance * 2\<close>
  without a guard, and the importance is not validated: a zero divisor gives an infinity or
  NaN, which the comparisons of \<^verbatim>\<open>decay\<close> then read.
\<close>

datatype jsnum = Finite real | PosInf | NegInf | NaN

definition js_div :: "(real \<Rightarrow> real) \<Rightarrow> real \<Rightarrow> real \<Rightarrow> jsnum" where
  "js_div rnd x y =
     (if y \<noteq> 0 then Finite (rnd (x / y))
      else if x > 0 then PosInf else if x < 0 then NegInf else NaN)"

text \<open>
  \<^verbatim>\<open>x > d\<close> for a threshold \<open>d\<close> that is finite or undefined: every comparison with NaN,
  and so with undefined, is false.
\<close>

fun js_gt :: "jsnum \<Rightarrow> real option \<Rightarrow> bool" where
  "js_gt (Finite x) (Some d) = (x > d)"
| "js_gt PosInf (Some d) = True"
| "js_gt _ _ = False"

text \<open>
  \<^verbatim>\<open>xs.map(f)\<close> for a callback that also increments a counter of the enclosing function
  (\<^verbatim>\<open>changed++\<close>): the counter is threaded through the calls, in order.
\<close>

fun map_counting :: "('a \<Rightarrow> nat \<Rightarrow> 'b \<times> nat) \<Rightarrow> 'a list \<Rightarrow> nat \<Rightarrow> 'b list \<times> nat" where
  "map_counting f [] changed = ([], changed)"
| "map_counting f (x # xs) changed =
     (case f x changed of (y, changed') \<Rightarrow>
        (case map_counting f xs changed' of (ys, changed'') \<Rightarrow> (y # ys, changed'')))"

definition effectiveAge :: "(real \<Rightarrow> real) \<Rightarrow> (string \<Rightarrow> real) \<Rightarrow> real \<Rightarrow> Memory \<Rightarrow> jsnum" where
  "effectiveAge rnd getTime now m =
     (let ageMs = rnd (now - getTime (createdAt m));
          ageDays = rnd (ageMs / 86400000);
          accessBoost = min (rnd (accessCount m * (5 / 10))) 5;
          importanceMultiplier = rnd (1 + rnd (importance m * 2))
      in js_div rnd (rnd (ageDays - accessBoost)) importanceMultiplier)"

definition decay_callback ::
  "(real \<Rightarrow> real) \<Rightarrow> (string \<Rightarrow> real) \<Rightarrow> real \<Rightarrow> Config \<Rightarrow> Memory \<Rightarrow> nat \<Rightarrow> Memory \<times> nat" where
  "decay_callback rnd getTime now cfg m changed =
     (let effAge = effectiveAge rnd getTime now m;
          newTier =
            (if tier m = Hot \<and> js_gt effAge (c_hotDays cfg) then Warm
             else if tier m = Warm \<and> js_gt effAge (c_warmDays cfg) then Cold
             else if tier m = Cold \<and> js_gt effAge (c_coldDays cfg) then Archive
             else tier m)
      in if newTier \<noteq> tier m then (m\<lparr>tier := newTier\<rparr>, changed + 1) else (m, changed))"

definition decay ::
  "(real \<Rightarrow> real) \<Rightarrow> (string \<Rightarrow> real) \<Rightarrow> real \<Rightarrow> Memory list \<Rightarrow> ConsolidateConfig \<Rightarrow> Memory list \<times> nat" where
  "decay rnd getTime now memories config =
     (let cfg = merge_config config
      in map_counting (decay_callback rnd getTime now cfg) memories 0)"

subsection \<open>Deduplicate\<close>

text \<open>\<^verbatim>\<open>xs.filter((_, i) => p(i))\<close>: the elements at the positions that satisfy \<open>p\<close>.\<close>

definition filter_index :: "(nat \<Rightarrow> bool) \<Rightarrow> 'a list \<Rightarrow> 'a list" where
  "filter_index p xs = map fst (filter (\<lambda>(x, i). p i) (zip xs [0..<length xs]))"

text \<open>
  The score \<^verbatim>\<open>importance + accessCount * 0.1\<close> of a record, which \<^verbatim>\<open>deduplicate\<close> and
  \<^verbatim>\<open>summarizeClusters\<close> both compute in place. The literal \<^verbatim>\<open>0.1\<close> is the representable
  number nearest to one tenth.
\<close>

definition score :: "(real \<Rightarrow> real) \<Rightarrow> Memory \<Rightarrow> real" where
  "score rnd m = rnd (importance m + rnd (accessCount m * rnd (1 / 10)))"

text \<open>The inner loop over \<open>j\<close>; \<^verbatim>\<open>break\<close> leaves it with \<open>i\<close> marked.\<close>

function dedup_inner :: "(real \<Rightarrow> real) \<Rightarrow> Memory list \<Rightarrow> real \<Rightarrow> nat \<Rightarrow> nat \<Rightarrow> nat set \<Rightarrow> nat set" where
  "dedup_inner rnd memories threshold i j remove =
     (if j < length memories then
        (if j \<in> remove then dedup_inner rnd memories threshold i (j + 1) remove
         else if cosineSimilarity (embedding (memories ! i)) (embedding (memories ! j)) > threshold then
           (if score rnd (memories ! i) \<ge> score rnd (memories ! j)
            then dedup_inner rnd memories threshold i (j + 1) (insert j remove)
            else insert i remove)
         else dedup_inner rnd memories threshold i (j + 1) remove)
      else remove)"
  by pat_completeness auto
termination
  by (relation "measure (\<lambda>(rnd, memories, threshold, i, j, remove). length memories - j)") auto

function dedup_outer :: "(real \<Rightarrow> real) \<Rightarrow> Memory list \<Rightarrow> real \<Rightarrow> nat \<Rightarrow> nat set \<Rightarrow> nat set" where
  "dedup_outer rnd memories threshold i remove =
     (if i < length memories then
        (if i \<in> remove then dedup_outer rnd memories threshold (i + 1) remove
         else dedup_outer rnd memories threshold (i + 1) (dedup_inner rnd memories threshold i (i + 1) remove))
      else remove)"
  by pat_completeness auto
termination
  by (relation "measure (\<lambda>(rnd, memories, threshold, i, remove). length memories - i)") auto

declare dedup_inner.simps [simp del] dedup_outer.simps [simp del]

definition deduplicate :: "(real \<Rightarrow> real) \<Rightarrow> Memory list \<Rightarrow> real \<Rightarrow> Memory list \<times> nat" where
  "deduplicate rnd memories threshold =
     (if length memories < 2 then (memories, 0)
      else (let remove = dedup_outer rnd memories threshold 0 {}
            in (filter_index (\<lambda>i. i \<notin> remove) memories, card remove)))"

subsection \<open>Cluster\<close>

text \<open>The inner loop over the candidates, for one seed.\<close>

fun cluster_inner ::
  "Memory \<Rightarrow> real option \<Rightarrow> (Memory \<times> nat) list \<Rightarrow> nat list \<Rightarrow> nat set \<Rightarrow> nat list \<times> nat set" where
  "cluster_inner seed threshold [] grp assigned = (grp, assigned)"
| "cluster_inner seed threshold ((other, otherIdx) # cs) grp assigned =
     (if otherIdx \<in> assigned then cluster_inner seed threshold cs grp assigned
      else if js_compare (\<ge>) (Some (cosineSimilarity (embedding seed) (embedding other))) threshold
        then cluster_inner seed threshold cs (grp @ [otherIdx]) (insert otherIdx assigned)
      else cluster_inner seed threshold cs grp assigned)"

text \<open>The outer loop over the seeds; the third argument is what is left of the candidates.\<close>

fun cluster_outer ::
  "Config \<Rightarrow> (Memory \<times> nat) list \<Rightarrow> (Memory \<times> nat) list \<Rightarrow> nat set \<Rightarrow> nat list list \<Rightarrow> nat list list" where
  "cluster_outer cfg candidates [] assigned clusters = clusters"
| "cluster_outer cfg candidates ((seed, seedIdx) # rest) assigned clusters =
     (if seedIdx \<in> assigned then cluster_outer cfg candidates rest assigned clusters
      else (case cluster_inner seed (c_clusterThreshold cfg) candidates [seedIdx] (insert seedIdx assigned) of
        (grp, assigned') \<Rightarrow>
          if js_compare (\<ge>) (Some (real (length grp))) (c_minClusterSize cfg)
          then cluster_outer cfg candidates rest assigned' (clusters @ [grp])
          else cluster_outer cfg candidates rest (assigned' - set grp) clusters))"

definition candidates_of :: "Memory list \<Rightarrow> (Memory \<times> nat) list" where
  "candidates_of memories =
     filter (\<lambda>(m, i). tier m = Warm \<or> tier m = Cold) (zip memories [0..<length memories])"

definition cluster :: "Memory list \<Rightarrow> ConsolidateConfig \<Rightarrow> nat list list" where
  "cluster memories config =
     (let cfg = merge_config config;
          candidates = candidates_of memories
      in if js_compare (<) (Some (real (length candidates))) (c_minClusterSize cfg) then []
         else cluster_outer cfg candidates candidates {} [])"

subsection \<open>Forget\<close>

text \<open>\<^verbatim>\<open>forget\<close> returns the survivors and \<^verbatim>\<open>memories.length - survivors.length\<close>.\<close>

definition forget :: "Memory list \<Rightarrow> real list \<Rightarrow> real \<Rightarrow> Memory list \<times> int" where
  "forget memories queryEmbedding threshold =
     (let survivors = filter (\<lambda>m. cosineSimilarity (embedding m) queryEmbedding < threshold) memories
      in (survivors, int (length memories) - int (length survivors)))"

subsection \<open>Summarize\<close>

text \<open>The state of the loop of \<^verbatim>\<open>summarizeClusters\<close>.\<close>

record merge_state =
  result :: "Memory list"
  toRemove :: "nat set"
  totalMerged :: nat

text \<open>The callback of \<^verbatim>\<open>group.reduce\<close>: the first index stays on a tie.\<close>

definition better :: "(real \<Rightarrow> real) \<Rightarrow> Memory list \<Rightarrow> nat \<Rightarrow> nat \<Rightarrow> nat" where
  "better rnd memories a b = (if score rnd (memories ! a) \<ge> score rnd (memories ! b) then a else b)"

text \<open>\<^verbatim>\<open>xs.findIndex(p)\<close>; \<open>None\<close> stands for \<open>-1\<close>.\<close>

fun findIndex :: "('a \<Rightarrow> bool) \<Rightarrow> 'a list \<Rightarrow> nat option" where
  "findIndex p [] = None"
| "findIndex p (x # xs) = (if p x then Some 0 else map_option Suc (findIndex p xs))"

text \<open>\<^verbatim>\<open>[...new Set(xs)]\<close>: the first occurrence of every element, in order.\<close>

definition uniq :: "'a list \<Rightarrow> 'a list" where
  "uniq xs = foldl (\<lambda>acc x. if x \<in> set acc then acc else acc @ [x]) [] xs"

definition merged_record :: "Memory \<Rightarrow> string \<Rightarrow> real \<Rightarrow> nat \<Rightarrow> string \<Rightarrow> Memory" where
  "merged_record r summary maxImportance n stamp =
     r\<lparr> content := summary,
        tags := uniq (tags r @ [''consolidated'']),
        importance := maxImportance,
        metadata := Some (obj_set ''consolidatedAt'' (VStr stamp)
          (obj_set ''consolidatedFrom'' (VNum (real n)) (spread (metadata r)))) \<rparr>"

text \<open>
  One iteration of the loop. The texts are collected before the \<^verbatim>\<open>try\<close>: reading the content
  of a record that does not exist throws out of the function. Inside the \<^verbatim>\<open>try\<close>, a
  rejection and the \<^verbatim>\<open>reduce\<close> of an empty group (a TypeError) are caught, and the loop
  continues. \<open>nowIso\<close> reads the clock after the summarizer has answered.
\<close>

definition summarize_group ::
  "(real \<Rightarrow> real) \<Rightarrow> Memory list \<Rightarrow> 's Summarizer \<Rightarrow> ('s \<Rightarrow> string) \<Rightarrow> nat list \<Rightarrow> merge_state \<Rightarrow> 's
     \<Rightarrow> error + merge_state \<times> 's" where
  "summarize_group rnd memories summarizer nowIso grp st s =
     (if \<exists>i \<in> set grp. \<not> i < length memories then Inl TypeError
      else
        (let texts = map (\<lambda>i. content (memories ! i)) grp in
         case summarizer s texts of
           (Rejected, s') \<Rightarrow> Inr (st, s')
         | (Resolved summary, s') \<Rightarrow>
             if summary = [] \<or> length summary < 10 then Inr (st, s')
             else
               (case grp of
                  [] \<Rightarrow> Inr (st, s')
                | a # rest \<Rightarrow>
                    (let best = foldl (better rnd memories) a rest;
                         toRemove' = toRemove st \<union> set (filter (\<lambda>idx. idx \<noteq> best) grp);
                         result' =
                           (case findIndex (\<lambda>m. id_m m = id_m (memories ! best)) (result st) of
                              None \<Rightarrow> result st
                            | Some bestInResult \<Rightarrow>
                                (result st)[bestInResult :=
                                  merged_record (result st ! bestInResult) summary
                                    (foldl max (importance (memories ! a))
                                       (map (\<lambda>i. importance (memories ! i)) rest))
                                    (length grp) (nowIso s')])
                     in Inr (\<lparr> result = result', toRemove = toRemove',
                               totalMerged = totalMerged st + (length grp - 1) \<rparr>, s')))))"

fun summarize_loop ::
  "(real \<Rightarrow> real) \<Rightarrow> Memory list \<Rightarrow> 's Summarizer \<Rightarrow> ('s \<Rightarrow> string) \<Rightarrow> nat list list \<Rightarrow> merge_state \<Rightarrow> 's
     \<Rightarrow> error + merge_state \<times> 's" where
  "summarize_loop rnd memories summarizer nowIso [] st s = Inr (st, s)"
| "summarize_loop rnd memories summarizer nowIso (grp # clusters) st s =
     (case summarize_group rnd memories summarizer nowIso grp st s of
        Inl e \<Rightarrow> Inl e
      | Inr (st', s') \<Rightarrow> summarize_loop rnd memories summarizer nowIso clusters st' s')"

definition summarizeClusters ::
  "(real \<Rightarrow> real) \<Rightarrow> Memory list \<Rightarrow> nat list list \<Rightarrow> 's Summarizer \<Rightarrow> ('s \<Rightarrow> string) \<Rightarrow> 's
     \<Rightarrow> error + (Memory list \<times> nat) \<times> 's" where
  "summarizeClusters rnd memories clusters summarizer nowIso s =
     (case summarize_loop rnd memories summarizer nowIso clusters
             \<lparr> result = memories, toRemove = {}, totalMerged = 0 \<rparr> s of
        Inl e \<Rightarrow> Inl e
      | Inr (st, s') \<Rightarrow>
          Inr ((filter_index (\<lambda>i. i \<notin> toRemove st) (result st), totalMerged st), s'))"

subsection \<open>Archive\<close>

text \<open>
  \<^verbatim>\<open>s.slice(0, e)\<close>: the end is truncated to an integer; a negative end counts from the
  end of the string; an undefined end is the length of the string.
\<close>

fun slice0 :: "string \<Rightarrow> real option \<Rightarrow> string" where
  "slice0 s None = s"
| "slice0 s (Some e) =
     (let k = (if e < 0 then - \<lfloor>- e\<rfloor> else \<lfloor>e\<rfloor>);
          n = int (length s);
          to = (if k < 0 then max (n + k) 0 else min k n)
      in take (nat to) s)"

text \<open>
  The length is typed as a number; \<^verbatim>\<open>consolidate\<close> passes the field of the merged
  configuration, which may be undefined.
\<close>

definition archive_callback :: "real option \<Rightarrow> Memory \<Rightarrow> nat \<Rightarrow> Memory \<times> nat" where
  "archive_callback truncateLength m changed =
     (if tier m = Archive \<and> js_compare (>) (Some (real (length (content m)))) truncateLength
         \<and> ''consolidated'' \<notin> set (tags m)
      then (m\<lparr> content := slice0 (content m) truncateLength @ ''...'',
               metadata := Some (obj_set ''originalLength'' (VNum (real (length (content m))))
                 (obj_set ''truncated'' (VBool True) (spread (metadata m)))) \<rparr>,
            changed + 1)
      else (m, changed))"

definition archive :: "Memory list \<Rightarrow> real option \<Rightarrow> Memory list \<times> nat" where
  "archive memories truncateLength =
     (if js_compare (\<le>) truncateLength (Some 0) then (memories, 0)
      else map_counting (archive_callback truncateLength) memories 0)"

subsection \<open>Consolidate\<close>

definition countByTier :: "Memory list \<Rightarrow> MemoryTier \<Rightarrow> nat" where
  "countByTier memories = foldl (\<lambda>c m. c(tier m := c (tier m) + 1)) (\<lambda>t. 0) memories"

record Report =
  timestamp :: string
  durationMs :: real
  before_total :: nat
  before_byTier :: "MemoryTier \<Rightarrow> nat"
  after_total :: nat
  after_byTier :: "MemoryTier \<Rightarrow> nat"
  decayed :: nat
  deduplicated :: nat
  clustersFound :: nat
  summarized :: nat
  archived :: nat

text \<open>The readings of the clock during one call of \<^verbatim>\<open>consolidate\<close>.\<close>

record Clock =
  startMs :: real
  decayNow :: real
  endIso :: string
  endMs :: real

text \<open>Phases 3 and 4 of \<^verbatim>\<open>consolidate\<close>: the records, \<open>clustersFound\<close> and \<open>summarized\<close>.\<close>

definition cluster_and_summarize ::
  "(real \<Rightarrow> real) \<Rightarrow> Config \<Rightarrow> Memory list \<Rightarrow> 's Summarizer option \<Rightarrow> ('s \<Rightarrow> string) \<Rightarrow> 's
     \<Rightarrow> error + (Memory list \<times> nat \<times> nat) \<times> 's" where
  "cluster_and_summarize rnd cfg current summarizer nowIso s =
     (case summarizer of
        None \<Rightarrow> Inr ((current, 0, 0), s)
      | Some summ \<Rightarrow>
          (let clusters = cluster current (as_config cfg) in
           if length clusters > 0 then
             (case summarizeClusters rnd current clusters summ nowIso s of
                Inl e \<Rightarrow> Inl e
              | Inr ((memories', merged), s') \<Rightarrow> Inr ((memories', length clusters, merged), s'))
           else Inr ((current, length clusters, 0), s)))"

definition consolidate ::
  "(real \<Rightarrow> real) \<Rightarrow> (string \<Rightarrow> real) \<Rightarrow> Clock \<Rightarrow> Memory list \<Rightarrow> ConsolidateConfig \<Rightarrow> 's Summarizer option
     \<Rightarrow> ('s \<Rightarrow> string) \<Rightarrow> 's \<Rightarrow> error + (Memory list \<times> Report) \<times> 's" where
  "consolidate rnd getTime clock memories config summarizer nowIso s =
     (let cfg = merge_config config;
          start = startMs clock;
          before = countByTier memories;
          current = map (\<lambda>m. m) memories
      in case decay rnd getTime (decayNow clock) current (as_config cfg) of (current1, decayChanged) \<Rightarrow>
         case deduplicate rnd current1 (default_arg (92 / 100) (c_deduplicateThreshold cfg)) of
           (current2, dedupRemoved) \<Rightarrow>
         case cluster_and_summarize rnd cfg current2 summarizer nowIso s of
           Inl e \<Rightarrow> Inl e
         | Inr ((current3, found, merged), s') \<Rightarrow>
             (case archive current3 (c_archiveTruncateLength cfg) of (current4, archiveChanged) \<Rightarrow>
                Inr ((current4,
                      \<lparr> timestamp = endIso clock,
                        durationMs = endMs clock - start,
                        before_total = length memories,
                        before_byTier = before,
                        after_total = length current4,
                        after_byTier = countByTier current4,
                        decayed = decayChanged,
                        deduplicated = dedupRemoved,
                        clustersFound = found,
                        summarized = merged,
                        archived = archiveChanged \<rparr>), s')))"

section \<open>The words of the specification\<close>

subsection \<open>Vectors and tiers\<close>

text \<open>The Euclidean norm of a vector, as the specification uses the word.\<close>

definition vnorm :: "real list \<Rightarrow> real" where
  "vnorm a = sqrt (\<Sum>x\<leftarrow>a. x * x)"

text \<open>The position of a tier in the order hot < warm < cold < archive.\<close>

fun tier_index :: "MemoryTier \<Rightarrow> nat" where
  "tier_index Hot = 0"
| "tier_index Warm = 1"
| "tier_index Cold = 2"
| "tier_index Archive = 3"

subsection \<open>The decay rule\<close>

text \<open>
  The formula of the specification,
  \<open>(ageDays - min(accessCount * 0.5, 5)) / (1 + importance * 2)\<close> with \<open>ageDays\<close> the age in
  days since \<^verbatim>\<open>createdAt\<close>, written with the operations of \<^typ>\<open>real\<close> and the rounding of
  each one.
\<close>

definition spec_age :: "(real \<Rightarrow> real) \<Rightarrow> (string \<Rightarrow> real) \<Rightarrow> real \<Rightarrow> Memory \<Rightarrow> real" where
  "spec_age rnd getTime now m =
     rnd (rnd (rnd (rnd (now - getTime (createdAt m)) / 86400000)
               - min (rnd (accessCount m * (1 / 2))) 5)
          / rnd (1 + rnd (importance m * 2)))"

text \<open>
  The effective age of a record. Where the divisor \<open>1 + importance * 2\<close> is 0 the formula
  has no value among the reals: the age is then infinite with the sign of the dividend, or
  not a number when the dividend is 0 as well.
\<close>

definition spec_effectiveAge :: "(real \<Rightarrow> real) \<Rightarrow> (string \<Rightarrow> real) \<Rightarrow> real \<Rightarrow> Memory \<Rightarrow> jsnum" where
  "spec_effectiveAge rnd getTime now m =
     (let dividend = rnd (rnd (rnd (now - getTime (createdAt m)) / 86400000)
                          - min (rnd (accessCount m * (1 / 2))) 5)
      in if rnd (1 + rnd (importance m * 2)) = 0
         then (if 0 < dividend then PosInf else if dividend < 0 then NegInf else NaN)
         else Finite (spec_age rnd getTime now m))"

text \<open>
  \<open>effectiveAge > threshold\<close>: a finite age exceeds the thresholds below it, an infinite
  positive age exceeds every threshold, and no age exceeds a threshold that is undefined.
\<close>

fun spec_exceeds :: "jsnum \<Rightarrow> real option \<Rightarrow> bool" where
  "spec_exceeds ea None = False"
| "spec_exceeds (Finite x) (Some d) = (d < x)"
| "spec_exceeds PosInf (Some d) = True"
| "spec_exceeds NegInf (Some d) = False"
| "spec_exceeds NaN (Some d) = False"

text \<open>The transition rule, applied to the current tier of the record only.\<close>

fun spec_transition :: "Config \<Rightarrow> jsnum \<Rightarrow> MemoryTier \<Rightarrow> MemoryTier" where
  "spec_transition cfg ea Hot = (if spec_exceeds ea (c_hotDays cfg) then Warm else Hot)"
| "spec_transition cfg ea Warm = (if spec_exceeds ea (c_warmDays cfg) then Cold else Warm)"
| "spec_transition cfg ea Cold = (if spec_exceeds ea (c_coldDays cfg) then Archive else Cold)"
| "spec_transition cfg ea Archive = Archive"

definition spec_decay_record ::
  "(real \<Rightarrow> real) \<Rightarrow> (string \<Rightarrow> real) \<Rightarrow> real \<Rightarrow> Config \<Rightarrow> Memory \<Rightarrow> Memory" where
  "spec_decay_record rnd getTime now cfg m =
     (let t = spec_transition cfg (spec_effectiveAge rnd getTime now m) (tier m)
      in if t = tier m then m else m\<lparr>tier := t\<rparr>)"

subsection \<open>Metadata\<close>

text \<open>The value of a key of an optional metadata map.\<close>

definition lookup :: "jsobject option \<Rightarrow> string \<Rightarrow> jsval option" where
  "lookup md k = map_of (spread md) k"

subsection \<open>The invocations of the Summarizer\<close>

text \<open>The texts that the Summarizer receives for a cluster.\<close>

definition texts_of :: "Memory list \<Rightarrow> nat list \<Rightarrow> string list" where
  "texts_of ms g = map (\<lambda>i. content (ms ! i)) g"

text \<open>
  The answers of the Summarizer to a sequence of invocations, each with the state that it
  leaves behind.
\<close>

fun responses :: "'s Summarizer \<Rightarrow> 's \<Rightarrow> string list list \<Rightarrow> (summary_result \<times> 's) list" where
  "responses summ s [] = []"
| "responses summ s (t # ts) = (case summ s t of (r, s') \<Rightarrow> (r, s') # responses summ s' ts)"

text \<open>Every cluster with the answer to its invocation.\<close>

definition outcomes ::
  "'s Summarizer \<Rightarrow> 's \<Rightarrow> Memory list \<Rightarrow> nat list list \<Rightarrow> (nat list \<times> summary_result \<times> 's) list" where
  "outcomes summ s ms cs = zip cs (responses summ s (map (texts_of ms) cs))"

text \<open>A cluster merges when the Summarizer answers with a text of at least 10 characters.\<close>

fun accepted :: "summary_result \<Rightarrow> bool" where
  "accepted Rejected = False"
| "accepted (Resolved t) = (10 \<le> length t)"


text \<open>The index that \<^verbatim>\<open>reduce\<close> selects in a group.\<close>

definition best_of :: "(real \<Rightarrow> real) \<Rightarrow> Memory list \<Rightarrow> nat list \<Rightarrow> nat" where
  "best_of rnd ms g = foldl (better rnd ms) (hd g) (tl g)"

text \<open>
  The merged count in the words of the specification: the sum, over the clusters that
  merged, of the group size minus one.
\<close>

definition merged_count :: "(nat list \<times> summary_result \<times> 's) list \<Rightarrow> nat" where
  "merged_count os = (\<Sum>(g, r, s1)\<leftarrow>os. if accepted r then length g - 1 else 0)"

text \<open>The members of the merged clusters other than their representatives.\<close>

definition merged_away :: "(real \<Rightarrow> real) \<Rightarrow> Memory list \<Rightarrow> (nat list \<times> summary_result \<times> 's) list \<Rightarrow> nat set" where
  "merged_away rnd ms os = (\<Union>(g, r, s1) \<in> set os. if accepted r then set g - {best_of rnd ms g} else {})"

section \<open>Example inputs\<close>

text \<open>Roundings, records, configurations and clocks for the examples.\<close>

text \<open>Arithmetic without rounding.\<close>

definition exact :: "real \<Rightarrow> real" where
  "exact x = x"


definition mem0 :: Memory where
  "mem0 = \<lparr> id_m = ''m0'', content = ''alpha'', embedding = [1, 0], tags = [],
     importance = 1 / 2, tier = Hot, createdAt = ''t0'', lastAccessed = ''t0'',
     accessCount = 0, source = None, metadata = None \<rparr>"

definition old_hot :: Memory where
  "old_hot = \<lparr> id_m = ''m1'', content = ''old memory'', embedding = [1, 0], tags = [],
     importance = 0, tier = Hot, createdAt = ''ten days ago'', lastAccessed = ''ten days ago'',
     accessCount = 0, source = None, metadata = None \<rparr>"

definition old_archived :: Memory where
  "old_archived = \<lparr> id_m = ''m2'', content = ''abcdefgh'', embedding = [0, 1], tags = [''x''],
     importance = 0, tier = Archive, createdAt = ''long ago'', lastAccessed = ''long ago'',
     accessCount = 0, source = None, metadata = None \<rparr>"

text \<open>Two records with the same embedding, the second of higher score.\<close>

definition dup_a :: Memory where
  "dup_a = \<lparr> id_m = ''dup1'', content = ''HNSW enables fast search'', embedding = [1, 0], tags = [],
     importance = 1 / 2, tier = Hot, createdAt = ''t1'', lastAccessed = ''t1'',
     accessCount = 0, source = None, metadata = None \<rparr>"

definition dup_b :: Memory where
  "dup_b = dup_a\<lparr> id_m := ''dup2'', content := ''HNSW enables fast search queries'', importance := 1 \<rparr>"

text \<open>Three warm or cold records with the same embedding.\<close>

definition warm1 :: Memory where
  "warm1 = \<lparr> id_m = ''w1'', content = ''Topic A detail one'', embedding = [1, 0], tags = [],
     importance = 1 / 2, tier = Warm, createdAt = ''t2'', lastAccessed = ''t2'',
     accessCount = 0, source = None, metadata = None \<rparr>"

definition warm2 :: Memory where
  "warm2 = warm1\<lparr> id_m := ''w2'', content := ''Topic A detail two'', importance := 7 / 10 \<rparr>"

definition cold3 :: Memory where
  "cold3 = warm1\<lparr> id_m := ''w3'', content := ''Topic A detail three'', tier := Cold \<rparr>"

text \<open>Six warm or cold records in two groups of equal embeddings, and the result of merging the second group.\<close>

definition two_groups :: "Memory list" where
  "two_groups =
     [warm1, warm2, cold3,
      warm1\<lparr> id_m := ''w4'', embedding := [0, 1] \<rparr>,
      warm1\<lparr> id_m := ''w5'', embedding := [0, 1], importance := 9 / 10, tags := [''x''] \<rparr>,
      warm1\<lparr> id_m := ''w6'', embedding := [0, 1] \<rparr>]"

definition two_groups_merged :: "Memory list" where
  "two_groups_merged =
     [warm1, warm2, cold3,
      warm1\<lparr> id_m := ''w5'', embedding := [0, 1], importance := 9 / 10,
             tags := [''x'', ''consolidated''], content := ''Summary of the cluster'',
             metadata := Some [(''consolidatedFrom'', VNum 3), (''consolidatedAt'', VStr ''now'')] \<rparr>]"

definition no_config :: ConsolidateConfig where
  "no_config = \<lparr> deduplicateThreshold = Absent, clusterThreshold = Absent, minClusterSize = Absent,
     hotDays = Absent, warmDays = Absent, coldDays = Absent, archiveTruncateLength = Absent \<rparr>"

text \<open>A configuration that switches deduplication off (no similarity exceeds 1).\<close>

definition no_dedup :: ConsolidateConfig where
  "no_dedup = no_config\<lparr> deduplicateThreshold := Given 1 \<rparr>"

text \<open>Every timestamp of the examples parses to time 0.\<close>

definition epoch :: "string \<Rightarrow> real" where
  "epoch s = 0"

definition clock0 :: Clock where
  "clock0 = \<lparr> startMs = 0, decayNow = 0, endIso = ''end'', endMs = 5 \<rparr>"

text \<open>A summarizer that always answers with the same text.\<close>

definition fixed_summarizer :: "unit Summarizer" where
  "fixed_summarizer s texts = (Resolved ''Summary of the cluster'', s)"

definition stamp0 :: "unit \<Rightarrow> string" where
  "stamp0 s = ''now''"

text \<open>
  A summarizer that fails on its first invocation and answers afterwards; its state counts
  the invocations.
\<close>

definition flaky_summarizer :: "nat Summarizer" where
  "flaky_summarizer s texts =
     (if s = 0 then (Rejected, 1) else (Resolved ''Summary of the cluster'', s + 1))"

definition stamp_nat :: "nat \<Rightarrow> string" where
  "stamp_nat s = ''now''"

text \<open>Three records of one cluster, the first two with the same identifier.\<close>

definition shared_id :: "Memory list" where
  "shared_id = [warm1, warm2\<lparr> id_m := ''w1'' \<rparr>, cold3]"









section \<open>Properties\<close>

subsection \<open>Cosine similarity\<close>

lemma cos_loop_swap:
  "cos_loop b a (d, y, x) = (case cos_loop a b (d, x, y) of (d', x', y') \<Rightarrow> (d', y', x'))"
proof (induction a arbitrary: b d x y)
  case Nil
  show ?case by (cases b) simp_all
next
  case (Cons u a)
  show ?case
  proof (cases b)
    case Nil
    then show ?thesis by simp
  next
    case (Cons v b')
    with Cons.IH [of b' "d + u * v" "y + v * v" "x + u * u"] show ?thesis
      by (simp add: mult.commute)
  qed
qed

lemma cos_loop_norms:
  "length a = length b \<Longrightarrow>
   cos_loop a b (d, x, y) = (d', x', y') \<Longrightarrow>
   x' = x + (\<Sum>u\<leftarrow>a. u * u) \<and> y' = y + (\<Sum>u\<leftarrow>b. u * u)"
proof (induction a b "(d, x, y)" arbitrary: d x y rule: cos_loop.induct)
  case (1 u us v vs dot normA normB)
  then show ?case by fastforce
qed simp_all

text \<open>
  Claim C8. The similarity is symmetric, and it is exactly 0 when the two vectors have
  unequal lengths, when either vector is empty, and when either vector has norm 0.
\<close>

theorem cosineSimilarity_symmetric_zero:
  "cosineSimilarity a b = cosineSimilarity b a \<and>
   (length a \<noteq> length b \<or> a = [] \<or> b = [] \<or> vnorm a = 0 \<or> vnorm b = 0
      \<longrightarrow> cosineSimilarity a b = 0)"
proof (intro conjI impI)
  show "cosineSimilarity a b = cosineSimilarity b a"
  proof (cases "length a = length b \<and> a \<noteq> []")
    case True
    obtain d x y where l: "cos_loop a b (0, 0, 0) = (d, x, y)"
      by (cases "cos_loop a b (0, 0, 0)") auto
    have "cos_loop b a (0, 0, 0) = (d, y, x)"
      using cos_loop_swap [of b a 0 0 0] l by simp
    with l True show ?thesis
      by (simp add: cosineSimilarity_def mult.commute)
  next
    case False
    then show ?thesis by (auto simp: cosineSimilarity_def)
  qed
next
  assume h: "length a \<noteq> length b \<or> a = [] \<or> b = [] \<or> vnorm a = 0 \<or> vnorm b = 0"
  show "cosineSimilarity a b = 0"
  proof (cases "length a = length b \<and> a \<noteq> []")
    case True
    obtain d x y where l: "cos_loop a b (0, 0, 0) = (d, x, y)"
      by (cases "cos_loop a b (0, 0, 0)") auto
    from True l have "sqrt x = vnorm a" "sqrt y = vnorm b"
      using cos_loop_norms [of a b 0 0 0 d x y] by (simp_all add: vnorm_def)
    moreover from True h have "vnorm a = 0 \<or> vnorm b = 0" by auto
    ultimately have "sqrt x * sqrt y = 0" by auto
    with l True show ?thesis by (simp add: cosineSimilarity_def)
  next
    case False
    then show ?thesis by (auto simp: cosineSimilarity_def)
  qed
qed

theorem cosineSimilarity_symmetric_zero_witness:
  "cosineSimilarity [3, 4] [0, 0] = cosineSimilarity [0, 0] [3, 4] \<and>
   vnorm [0, 0] = 0 \<and> cosineSimilarity [3, 4] [0, 0] = 0 \<and>
   length [1 :: real] \<noteq> length [1, 2 :: real] \<and> cosineSimilarity [1] [1, 2] = 0 \<and>
   cosineSimilarity [1, 0] [1, 0] = 1"
  using cosineSimilarity_symmetric_zero [of "[3, 4]" "[0, 0]"]
    cosineSimilarity_symmetric_zero [of "[1]" "[1, 2]"]
  by (simp add: vnorm_def cosineSimilarity_def)

subsection \<open>Forget\<close>

text \<open>
  Claim C9. \<^verbatim>\<open>forget\<close> returns exactly the input records, in their original order, whose
  similarity to the query embedding is strictly less than the threshold, and
  \<open>forgotten + survivors.size = input.size\<close>.
\<close>

theorem forget_survivors:
  "forget ms q th = (out, forgotten) \<Longrightarrow>
   out = filter (\<lambda>m. cosineSimilarity (embedding m) q < th) ms \<and>
   subseq out ms \<and>
   (\<forall>m \<in> set ms. m \<in> set out \<longleftrightarrow> cosineSimilarity (embedding m) q < th) \<and>
   forgotten + int (length out) = int (length ms)"
  by (auto simp: forget_def Let_def)

theorem forget_survivors_witness:
  "forget [mem0, mem0\<lparr>embedding := [0, 1]\<rparr>] [1, 0] (7 / 10) = ([mem0\<lparr>embedding := [0, 1]\<rparr>], 1) \<and>
   subseq [mem0\<lparr>embedding := [0, 1]\<rparr>] [mem0, mem0\<lparr>embedding := [0, 1]\<rparr>] \<and>
   1 + int (length [mem0\<lparr>embedding := [0, 1]\<rparr>]) = int (length [mem0, mem0\<lparr>embedding := [0, 1]\<rparr>])"
  using forget_survivors [of "[mem0, mem0\<lparr>embedding := [0, 1]\<rparr>]" "[1, 0]" "7 / 10"
      "[mem0\<lparr>embedding := [0, 1]\<rparr>]" 1]
  by (simp add: forget_def cosineSimilarity_def mem0_def)

subsection \<open>Decay\<close>

lemma map_counting_eq:
  "(\<And>x c. f x c = (g x, if p x then c + 1 else c)) \<Longrightarrow>
   map_counting f xs c = (map g xs, c + length (filter p xs))"
  by (induction xs arbitrary: c) simp_all

lemma effectiveAge_spec: "effectiveAge rnd getTime now m = spec_effectiveAge rnd getTime now m"
  by (simp add: effectiveAge_def spec_effectiveAge_def spec_age_def js_div_def Let_def)

lemma js_gt_spec: "js_gt ea th = spec_exceeds ea th"
  by (cases ea; cases th) simp_all

lemma decay_callback_spec:
  "decay_callback rnd getTime now cfg m c =
     (spec_decay_record rnd getTime now cfg m,
      if tier m \<noteq> tier (spec_decay_record rnd getTime now cfg m) then c + 1 else c)"
  by (cases "tier m")
    (simp_all add: decay_callback_def spec_decay_record_def effectiveAge_spec js_gt_spec Let_def)

lemma decay_map:
  "decay rnd getTime now ms config =
     (map (spec_decay_record rnd getTime now (merge_config config)) ms,
      length (filter (\<lambda>m. tier m \<noteq> tier (spec_decay_record rnd getTime now (merge_config config) m)) ms))"
  unfolding decay_def Let_def
  using map_counting_eq [of "decay_callback rnd getTime now (merge_config config)"
      "spec_decay_record rnd getTime now (merge_config config)"
      "\<lambda>m. tier m \<noteq> tier (spec_decay_record rnd getTime now (merge_config config) m)" ms 0]
  by (simp add: decay_callback_spec)

lemma spec_decay_record_step:
  "tier (spec_decay_record rnd getTime now cfg m) = tier m \<or>
   tier_index (tier (spec_decay_record rnd getTime now cfg m)) = tier_index (tier m) + 1"
  by (cases "tier m") (simp_all add: spec_decay_record_def Let_def)

lemma spec_decay_record_archive:
  "tier m = Archive \<Longrightarrow> spec_decay_record rnd getTime now cfg m = m"
  by (simp add: spec_decay_record_def)

text \<open>
  Claim C1. Decay is tier-monotonic and single-step: the output tier of each record is its
  input tier or the next tier in the order hot < warm < cold < archive, whatever the
  effective age, and a record of tier archive keeps tier archive.
\<close>

theorem decay_tier_single_step:
  "decay rnd getTime now ms config = (out, changed) \<Longrightarrow>
   length out = length ms \<and>
   (\<forall>i < length ms.
      (tier (out ! i) = tier (ms ! i) \<or>
       tier_index (tier (out ! i)) = tier_index (tier (ms ! i)) + 1) \<and>
      (tier (ms ! i) = Archive \<longrightarrow> tier (out ! i) = Archive))"
proof -
  assume a: "decay rnd getTime now ms config = (out, changed)"
  let ?g = "spec_decay_record rnd getTime now (merge_config config)"
  from a have o: "out = map ?g ms"
    by (simp add: decay_map)
  have "tier (?g (ms ! i)) = tier (ms ! i) \<or>
        tier_index (tier (?g (ms ! i))) = tier_index (tier (ms ! i)) + 1" for i
    by (rule spec_decay_record_step)
  moreover have "tier (ms ! i) = Archive \<longrightarrow> tier (?g (ms ! i)) = Archive" for i
    by (simp add: spec_decay_record_archive)
  ultimately show ?thesis unfolding o by simp
qed

theorem decay_tier_single_step_witness:
  "decay exact epoch 864000000 [old_hot, old_hot\<lparr>tier := Archive\<rparr>] no_config =
     ([old_hot\<lparr>tier := Warm\<rparr>, old_hot\<lparr>tier := Archive\<rparr>], 1) \<and>
   tier_index (tier (old_hot\<lparr>tier := Warm\<rparr>)) = tier_index (tier old_hot) + 1 \<and>
   tier ([old_hot\<lparr>tier := Warm\<rparr>, old_hot\<lparr>tier := Archive\<rparr>] ! 1) = Archive"
  using decay_tier_single_step [of exact epoch 864000000 "[old_hot, old_hot\<lparr>tier := Archive\<rparr>]" no_config
      "[old_hot\<lparr>tier := Warm\<rparr>, old_hot\<lparr>tier := Archive\<rparr>]" 1]
  by (simp add: decay_def decay_callback_def effectiveAge_def js_div_def old_hot_def no_config_def
      merge_config_def DEFAULTS_def epoch_def exact_def Let_def)







subsection \<open>Archive\<close>

lemma map_of_obj_set: "map_of (obj_set k v ob) = (map_of ob)(k \<mapsto> v)"
  by (induction ob) auto

lemma slice0_pos: "0 < e \<Longrightarrow> slice0 s (Some e) = take (nat \<lfloor>e\<rfloor>) s"
proof -
  assume "0 < e"
  then have "0 \<le> \<lfloor>e\<rfloor>" by simp
  then show ?thesis
    using \<open>0 < e\<close> by (auto simp: Let_def min_def)
qed

lemma archive_callback_eq:
  "archive_callback len m c =
     (fst (archive_callback len m 0),
      if tier m = Archive \<and> js_compare (>) (Some (real (length (content m)))) len
         \<and> ''consolidated'' \<notin> set (tags m)
      then c + 1 else c)"
  by (simp add: archive_callback_def)

lemma archive_map:
  "\<not> js_compare (\<le>) len (Some 0) \<Longrightarrow>
   archive ms len =
     (map (\<lambda>m. fst (archive_callback len m 0)) ms,
      length (filter (\<lambda>m. tier m = Archive \<and> js_compare (>) (Some (real (length (content m)))) len
        \<and> ''consolidated'' \<notin> set (tags m)) ms))"
  unfolding archive_def
  by (simp add: map_counting_eq [where f = "archive_callback len"
        and g = "\<lambda>m. fst (archive_callback len m 0)"
        and p = "\<lambda>m. tier m = Archive \<and> js_compare (>) (Some (real (length (content m)))) len
          \<and> ''consolidated'' \<notin> set (tags m)",
        OF archive_callback_eq])

text \<open>With an undefined length both comparisons are false: every record is returned as it is.\<close>

lemma archive_undefined: "archive ms None = (ms, 0)"
proof -
  have "map (\<lambda>m. fst (archive_callback None m 0)) ms = ms"
    by (induction ms) (simp_all add: archive_callback_def)
  then show ?thesis by (simp add: archive_map)
qed

text \<open>
  Claim C7. The archival compactor rewrites exactly the records whose tier is archive, whose
  content is longer than \<open>truncateLength\<close> and whose tags do not contain \<open>consolidated\<close>:
  the new content is the first \<open>truncateLength\<close> characters of the old one followed by
  three dots, the metadata gains \<open>truncated = true\<close> and \<open>originalLength\<close>, and nothing else
  of the record changes. Every other record is returned as it is. With
  \<open>truncateLength \<le> 0\<close> the input is returned unchanged, with \<open>changed = 0\<close>. (A length
  that is not an integer is truncated to one by \<^verbatim>\<open>slice\<close>. The length of the claim is a
  number, \<open>Some len\<close>; lemma \<open>archive_undefined\<close> has the undefined one.)
\<close>

theorem archive_truncates:
  "archive ms (Some len) = (out, changed) \<Longrightarrow>
   length out = length ms \<and>
   (len \<le> 0 \<longrightarrow> out = ms \<and> changed = 0) \<and>
   (0 < len \<longrightarrow>
      (\<forall>i < length ms.
         if tier (ms ! i) = Archive \<and> real (length (content (ms ! i))) > len
            \<and> ''consolidated'' \<notin> set (tags (ms ! i))
         then content (out ! i) = take (nat \<lfloor>len\<rfloor>) (content (ms ! i)) @ ''...'' \<and>
              lookup (metadata (out ! i)) ''truncated'' = Some (VBool True) \<and>
              lookup (metadata (out ! i)) ''originalLength'' =
                Some (VNum (real (length (content (ms ! i))))) \<and>
              (\<forall>k. k \<noteq> ''truncated'' \<and> k \<noteq> ''originalLength'' \<longrightarrow>
                 lookup (metadata (out ! i)) k = lookup (metadata (ms ! i)) k) \<and>
              (out ! i)\<lparr>content := content (ms ! i), metadata := metadata (ms ! i)\<rparr> = ms ! i
         else out ! i = ms ! i) \<and>
      changed = length (filter (\<lambda>m. tier m = Archive \<and> real (length (content m)) > len
        \<and> ''consolidated'' \<notin> set (tags m)) ms))"
proof (cases "0 < len")
  case False
  assume "archive ms (Some len) = (out, changed)"
  with False show ?thesis by (simp add: archive_def)
next
  case True
  assume "archive ms (Some len) = (out, changed)"
  with True have o: "out = map (\<lambda>m. fst (archive_callback (Some len) m 0)) ms"
    and c: "changed = length (filter (\<lambda>m. tier m = Archive \<and> real (length (content m)) > len
        \<and> ''consolidated'' \<notin> set (tags m)) ms)"
    by (simp_all add: archive_map)
  have "if tier m = Archive \<and> real (length (content m)) > len \<and> ''consolidated'' \<notin> set (tags m)
         then content (fst (archive_callback (Some len) m 0)) = take (nat \<lfloor>len\<rfloor>) (content m) @ ''...'' \<and>
              lookup (metadata (fst (archive_callback (Some len) m 0))) ''truncated'' = Some (VBool True) \<and>
              lookup (metadata (fst (archive_callback (Some len) m 0))) ''originalLength'' =
                Some (VNum (real (length (content m)))) \<and>
              (\<forall>k. k \<noteq> ''truncated'' \<and> k \<noteq> ''originalLength'' \<longrightarrow>
                 lookup (metadata (fst (archive_callback (Some len) m 0))) k = lookup (metadata m) k) \<and>
              (fst (archive_callback (Some len) m 0))\<lparr>content := content m, metadata := metadata m\<rparr> = m
         else fst (archive_callback (Some len) m 0) = m" for m
    using True by (simp add: archive_callback_def lookup_def map_of_obj_set slice0_pos del: slice0.simps)
  then show ?thesis using True o c by simp
qed

theorem archive_truncates_witness:
  "archive [old_archived, old_hot] (Some 3) =
     ([old_archived\<lparr>content := ''abc...'',
         metadata := Some [(''truncated'', VBool True), (''originalLength'', VNum 8)]\<rparr>, old_hot], 1) \<and>
   tier old_archived = Archive \<and> real (length (content old_archived)) > 3 \<and>
   ''consolidated'' \<notin> set (tags old_archived) \<and>
   take (nat \<lfloor>3 :: real\<rfloor>) (content old_archived) @ ''...'' = ''abc...'' \<and>
   archive [old_archived, old_hot] (Some 0) = ([old_archived, old_hot], 0)"
proof -
  have h: "archive [old_archived, old_hot] (Some 3) =
     ([old_archived\<lparr>content := ''abc...'',
         metadata := Some [(''truncated'', VBool True), (''originalLength'', VNum 8)]\<rparr>, old_hot], 1)"
    by (simp add: archive_def archive_callback_def old_archived_def old_hot_def)
  have h0: "archive [old_archived, old_hot] (Some 0) = ([old_archived, old_hot], 0)"
    by (simp add: archive_def)
  show ?thesis
    using h h0 archive_truncates [OF h] archive_truncates [OF h0]
    by (simp add: old_archived_def)
qed

subsection \<open>Deduplicate\<close>

lemma filter_index_nths: "filter_index p xs = nths xs {i. p i}"
  by (simp add: filter_index_def nths_def case_prod_unfold)

lemma dedup_inner_bound:
  "remove \<subseteq> {..<length ms} \<Longrightarrow> i < length ms \<Longrightarrow> dedup_inner rnd ms th i j remove \<subseteq> {..<length ms}"
proof (induction rnd ms th i j remove rule: dedup_inner.induct)
  case (1 rnd memories threshold i j remove)
  show ?case
    using "1.prems" "1.IH" by (subst dedup_inner.simps) auto
qed

lemma dedup_outer_bound:
  "remove \<subseteq> {..<length ms} \<Longrightarrow> dedup_outer rnd ms th i remove \<subseteq> {..<length ms}"
proof (induction rnd ms th i remove rule: dedup_outer.induct)
  case (1 rnd memories threshold i remove)
  show ?case
    using "1.prems" "1.IH" dedup_inner_bound [of remove memories i rnd threshold "i + 1"]
    by (subst dedup_outer.simps) auto
qed

lemma length_filter_index_compl:
  assumes "R \<subseteq> {..<length xs}"
  shows "length (filter_index (\<lambda>i. i \<notin> R) xs) + card R = length xs"
proof -
  have fin: "finite R" using assms finite_subset by blast
  have "{i. i < length xs \<and> i \<in> {i. i \<notin> R}} = {..<length xs} - R" by auto
  then have "length (filter_index (\<lambda>i. i \<notin> R) xs) = card ({..<length xs} - R)"
    by (simp add: filter_index_nths length_nths)
  also have "\<dots> = length xs - card R"
    using assms fin by (simp add: card_Diff_subset)
  finally show ?thesis
    using card_mono [OF _ assms] by simp
qed

text \<open>
  Claim C4. \<^verbatim>\<open>deduplicate\<close> returns the surviving records in their original relative order,
  \<open>output.size + removed = input.size\<close>, and a collection of fewer than two records is
  returned unchanged with \<open>removed = 0\<close>.
\<close>

theorem deduplicate_count_order:
  "deduplicate rnd ms th = (out, removed) \<Longrightarrow>
   subseq out ms \<and> length out + removed = length ms \<and>
   (length ms < 2 \<longrightarrow> out = ms \<and> removed = 0)"
proof (cases "length ms < 2")
  case True
  assume "deduplicate rnd ms th = (out, removed)"
  with True show ?thesis by (simp add: deduplicate_def)
next
  case False
  assume a: "deduplicate rnd ms th = (out, removed)"
  let ?R = "dedup_outer rnd ms th 0 {}"
  from a False have o: "out = filter_index (\<lambda>i. i \<notin> ?R) ms" and r: "removed = card ?R"
    by (simp_all add: deduplicate_def Let_def)
  have b: "?R \<subseteq> {..<length ms}"
    by (rule dedup_outer_bound) simp
  have "subseq out ms"
    unfolding o filter_index_nths subseq_conv_nths by blast
  with length_filter_index_compl [OF b] o r False show ?thesis by simp
qed


theorem deduplicate_count_order_witness:
  "deduplicate exact [dup_a, dup_b, old_archived] (92 / 100) = ([dup_b, old_archived], 1) \<and>
   subseq [dup_b, old_archived] [dup_a, dup_b, old_archived] \<and>
   length [dup_b, old_archived] + 1 = length [dup_a, dup_b, old_archived] \<and>
   length [dup_a] < 2 \<and> deduplicate exact [dup_a] (92 / 100) = ([dup_a], 0)"
proof -
  have h: "deduplicate exact [dup_a, dup_b, old_archived] (92 / 100) = ([dup_b, old_archived], 1)"
    by (simp add: deduplicate_def filter_index_def dup_a_def dup_b_def old_archived_def
        cosineSimilarity_def score_def exact_def dedup_inner.simps dedup_outer.simps)
  have h1: "deduplicate exact [dup_a] (92 / 100) = ([dup_a], 0)"
    by (simp add: deduplicate_def)
  show ?thesis
    using h h1 deduplicate_count_order [OF h] deduplicate_count_order [OF h1] by simp
qed

subsection \<open>Cluster\<close>

lemma js_compare_ge: "js_compare (\<ge>) (Some x) t \<longleftrightarrow> (\<exists>d. t = Some d \<and> x \<ge> d)"
  by (cases t) simp_all

lemma candidates_of_mem:
  "(m, i) \<in> set (candidates_of ms) \<Longrightarrow>
   i < length ms \<and> m = ms ! i \<and> (tier m = Warm \<or> tier m = Cold)"
  by (auto simp: candidates_of_def in_set_zip)

lemma length_candidates_of:
  "length (candidates_of ms) = length (filter (\<lambda>m. tier m = Warm \<or> tier m = Cold) ms)"
proof -
  let ?P = "\<lambda>m. tier m = Warm \<or> tier m = Cold"
  have "filter ?P ms = filter ?P (map fst (zip ms [0..<length ms]))"
    by simp
  also have "\<dots> = map fst (filter (?P \<circ> fst) (zip ms [0..<length ms]))"
    by (rule filter_map)
  also have "\<dots> = map fst (candidates_of ms)"
    by (simp add: candidates_of_def o_def case_prod_unfold)
  finally show ?thesis by (metis length_map)
qed

lemma cluster_inner_props:
  "cluster_inner seed th cs grp assigned = (grp', assigned') \<Longrightarrow>
   set grp \<subseteq> assigned \<Longrightarrow> distinct grp \<Longrightarrow>
   distinct grp' \<and> assigned' = assigned \<union> set grp' \<and> set grp \<subseteq> set grp' \<and>
   set grp' \<subseteq> set grp \<union> snd ` set cs \<and> (set grp' - set grp) \<inter> assigned = {}"
proof (induction seed th cs grp assigned rule: cluster_inner.induct)
  case (1 seed threshold grp assigned)
  then show ?case by auto
next
  case (2 seed threshold other otherIdx cs grp assigned)
  show ?case
  proof (cases "otherIdx \<notin> assigned \<and>
      js_compare (\<ge>) (Some (cosineSimilarity (embedding seed) (embedding other))) threshold")
    case True
    with "2.prems" have c: "cluster_inner seed threshold cs (grp @ [otherIdx]) (insert otherIdx assigned) = (grp', assigned')"
      by simp
    from True "2.prems" have "set (grp @ [otherIdx]) \<subseteq> insert otherIdx assigned" "distinct (grp @ [otherIdx])"
      by auto
    with "2.IH"(2) [OF _ _ c] True have
      "distinct grp' \<and> assigned' = insert otherIdx assigned \<union> set grp' \<and>
       set (grp @ [otherIdx]) \<subseteq> set grp' \<and>
       set grp' \<subseteq> set (grp @ [otherIdx]) \<union> snd ` set cs \<and>
       (set grp' - set (grp @ [otherIdx])) \<inter> insert otherIdx assigned = {}"
      by blast
    with True show ?thesis by auto
  next
    case False
    with "2.prems" have c: "cluster_inner seed threshold cs grp assigned = (grp', assigned')"
      by (auto split: if_splits)
    from False have "otherIdx \<in> assigned \<or> (otherIdx \<notin> assigned \<and>
        \<not> js_compare (\<ge>) (Some (cosineSimilarity (embedding seed) (embedding other))) threshold)"
      by blast
    then have "distinct grp' \<and> assigned' = assigned \<union> set grp' \<and> set grp \<subseteq> set grp' \<and>
       set grp' \<subseteq> set grp \<union> snd ` set cs \<and> (set grp' - set grp) \<inter> assigned = {}"
      using "2.IH"(1) [OF _ c "2.prems"(2,3)] "2.IH"(3) [OF _ _ c "2.prems"(2,3)] by blast
    then show ?thesis by auto
  qed
qed

lemma cluster_outer_inv:
  "assigned = set (concat clusters) \<Longrightarrow> distinct (concat clusters) \<Longrightarrow>
   (\<forall>g \<in> set clusters. js_compare (\<ge>) (Some (real (length g))) (c_minClusterSize cfg) \<and> g \<noteq> [] \<and> set g \<subseteq> snd ` set candidates) \<Longrightarrow>
   snd ` set rest \<subseteq> snd ` set candidates \<Longrightarrow>
   distinct (concat (cluster_outer cfg candidates rest assigned clusters)) \<and>
   (\<forall>g \<in> set (cluster_outer cfg candidates rest assigned clusters).
      js_compare (\<ge>) (Some (real (length g))) (c_minClusterSize cfg) \<and> g \<noteq> [] \<and> set g \<subseteq> snd ` set candidates)"
proof (induction cfg candidates rest assigned clusters rule: cluster_outer.induct)
  case (1 cfg candidates assigned clusters)
  then show ?case by simp
next
  case (2 cfg candidates seed seedIdx rest assigned clusters)
  from "2.prems"(4) have rest: "snd ` set rest \<subseteq> snd ` set candidates"
    and seedc: "seedIdx \<in> snd ` set candidates" by auto
  show ?case
  proof (cases "seedIdx \<in> assigned")
    case True
    then show ?thesis
      using "2.IH"(1) [OF True "2.prems"(1,2,3) rest] by simp
  next
    case False
    obtain grp assigned' where
      ci: "cluster_inner seed (c_clusterThreshold cfg) candidates [seedIdx] (insert seedIdx assigned) = (grp, assigned')"
      by (cases "cluster_inner seed (c_clusterThreshold cfg) candidates [seedIdx] (insert seedIdx assigned)") auto
    from cluster_inner_props [OF ci] have
      p: "distinct grp" "assigned' = insert seedIdx assigned \<union> set grp" "seedIdx \<in> set grp"
         "set grp \<subseteq> {seedIdx} \<union> snd ` set candidates" "(set grp - {seedIdx}) \<inter> insert seedIdx assigned = {}"
      by auto
    from p False have disj: "set grp \<inter> assigned = {}" by auto
    from p seedc have sub: "set grp \<subseteq> snd ` set candidates" by auto
    from p have ne: "grp \<noteq> []" by auto
    show ?thesis
    proof (cases "js_compare (\<ge>) (Some (real (length grp))) (c_minClusterSize cfg)")
      case True
      have a: "assigned' = set (concat (clusters @ [grp]))"
        using p "2.prems"(1) by auto
      have d: "distinct (concat (clusters @ [grp]))"
        using p disj "2.prems"(1,2) by auto
      have q: "\<forall>g \<in> set (clusters @ [grp]). js_compare (\<ge>) (Some (real (length g))) (c_minClusterSize cfg) \<and> g \<noteq> [] \<and> set g \<subseteq> snd ` set candidates"
        using "2.prems"(3) True sub ne by auto
      show ?thesis
        using "2.IH"(2) [OF False ci [symmetric] True a d q rest] False ci True by simp
    next
      case F: False
      have a: "assigned' - set grp = set (concat clusters)"
        using p disj "2.prems"(1) by auto
      show ?thesis
        using "2.IH"(3) [OF False ci [symmetric] F a "2.prems"(2,3) rest] False ci F by simp
    qed
  qed
qed

lemma distinct_concat_disjoint:
  "distinct (concat xs) \<Longrightarrow> i < j \<Longrightarrow> j < length xs \<Longrightarrow> set (xs ! i) \<inter> set (xs ! j) = {}"
proof (induction xs arbitrary: i j)
  case Nil
  then show ?case by simp
next
  case (Cons x xs)
  show ?case
  proof (cases i)
    case 0
    with Cons.prems obtain j' where "j = Suc j'" "j' < length xs" by (cases j) auto
    then have "set (xs ! j') \<subseteq> \<Union> (set ` set xs)"
      using nth_mem [of j' xs] by blast
    with 0 \<open>j = Suc j'\<close> Cons.prems show ?thesis by auto
  next
    case (Suc i')
    with Cons.prems obtain j' where "j = Suc j'" "j' < length xs" "i' < j'" by (cases j) auto
    with Suc Cons.IH [of i' j'] Cons.prems show ?thesis by auto
  qed
qed

lemma cluster_props:
  "distinct (concat (cluster ms config)) \<and>
   (\<forall>g \<in> set (cluster ms config).
      js_compare (\<ge>) (Some (real (length g))) (c_minClusterSize (merge_config config)) \<and> g \<noteq> [] \<and>
      set g \<subseteq> snd ` set (candidates_of ms))"
proof (cases "js_compare (<) (Some (real (length (candidates_of ms)))) (c_minClusterSize (merge_config config))")
  case True
  then show ?thesis by (simp add: cluster_def Let_def)
next
  case False
  then have "cluster ms config =
    cluster_outer (merge_config config) (candidates_of ms) (candidates_of ms) {} []"
    by (simp add: cluster_def Let_def)
  then show ?thesis
    using cluster_outer_inv [of "{}" "[]" "merge_config config" "candidates_of ms" "candidates_of ms"]
    by simp
qed

lemma cluster_member:
  "g \<in> set (cluster ms config) \<Longrightarrow> i \<in> set g \<Longrightarrow>
   i < length ms \<and> (tier (ms ! i) = Warm \<or> tier (ms ! i) = Cold)"
proof -
  assume "g \<in> set (cluster ms config)" "i \<in> set g"
  with cluster_props [of ms config] have "i \<in> snd ` set (candidates_of ms)" by blast
  then obtain m where "(m, i) \<in> set (candidates_of ms)" by auto
  from candidates_of_mem [OF this] show ?thesis by auto
qed

text \<open>
  Claim C5. Every group returned by \<^verbatim>\<open>cluster\<close> has at least \<open>minClusterSize\<close> members, the
  groups are pairwise disjoint, every index of a group is the position of a record whose
  tier is warm or cold, and when fewer than \<open>minClusterSize\<close> records are warm or cold the
  result is the empty list. (A group is returned only when \<open>minClusterSize\<close> is a number:
  with an undefined one no group passes the size test.)
\<close>

theorem cluster_groups:
  "(\<forall>g \<in> set (cluster ms config).
      \<exists>d. c_minClusterSize (merge_config config) = Some d \<and> real (length g) \<ge> d) \<and>
   (\<forall>i j. i < j \<and> j < length (cluster ms config) \<longrightarrow>
      set (cluster ms config ! i) \<inter> set (cluster ms config ! j) = {}) \<and>
   (\<forall>g \<in> set (cluster ms config). \<forall>i \<in> set g.
      i < length ms \<and> (tier (ms ! i) = Warm \<or> tier (ms ! i) = Cold)) \<and>
   (\<forall>d. c_minClusterSize (merge_config config) = Some d \<and>
      real (length (filter (\<lambda>m. tier m = Warm \<or> tier m = Cold) ms)) < d
      \<longrightarrow> cluster ms config = [])"
proof (intro conjI)
  show "\<forall>g \<in> set (cluster ms config).
      \<exists>d. c_minClusterSize (merge_config config) = Some d \<and> real (length g) \<ge> d"
    using cluster_props [of ms config] by (simp add: js_compare_ge)
  show "\<forall>i j. i < j \<and> j < length (cluster ms config) \<longrightarrow>
      set (cluster ms config ! i) \<inter> set (cluster ms config ! j) = {}"
    using cluster_props [of ms config] distinct_concat_disjoint [of "cluster ms config"] by blast
  show "\<forall>g \<in> set (cluster ms config). \<forall>i \<in> set g.
      i < length ms \<and> (tier (ms ! i) = Warm \<or> tier (ms ! i) = Cold)"
    using cluster_member by blast
  show "\<forall>d. c_minClusterSize (merge_config config) = Some d \<and>
      real (length (filter (\<lambda>m. tier m = Warm \<or> tier m = Cold) ms)) < d
      \<longrightarrow> cluster ms config = []"
    by (simp add: cluster_def Let_def length_candidates_of)
qed

theorem cluster_groups_witness:
  "cluster [old_hot, warm1, warm2, old_archived, cold3] no_config = [[1, 2, 4]] \<and>
   c_minClusterSize (merge_config no_config) = Some 3 \<and>
   real (length [1, 2, 4 :: nat]) \<ge> 3 \<and>
   tier ([old_hot, warm1, warm2, old_archived, cold3] ! 4) = Cold \<and>
   cluster [warm1, warm1\<lparr>embedding := [0, 1]\<rparr>] (no_config\<lparr>minClusterSize := Given 1\<rparr>) = [[0], [1]] \<and>
   set ([[0], [1 :: nat]] ! 0) \<inter> set ([[0], [1]] ! 1) = {} \<and>
   real (length (filter (\<lambda>m. tier m = Warm \<or> tier m = Cold) [old_hot, warm1])) < 3 \<and>
   cluster [old_hot, warm1] no_config = []"
proof -
  have h: "cluster [old_hot, warm1, warm2, old_archived, cold3] no_config = [[1, 2, 4]]"
    by (simp add: cluster_def candidates_of_def no_config_def merge_config_def DEFAULTS_def
        old_hot_def warm1_def warm2_def cold3_def old_archived_def cosineSimilarity_def)
  have h2: "cluster [warm1, warm1\<lparr>embedding := [0, 1]\<rparr>] (no_config\<lparr>minClusterSize := Given 1\<rparr>) = [[0], [1]]"
    by (simp add: cluster_def candidates_of_def no_config_def merge_config_def DEFAULTS_def
        warm1_def cosineSimilarity_def)
  have m: "c_minClusterSize (merge_config no_config) = Some 3"
    by (simp add: no_config_def merge_config_def DEFAULTS_def)
  have h3: "real (length (filter (\<lambda>m. tier m = Warm \<or> tier m = Cold) [old_hot, warm1])) < 3"
    by (simp add: old_hot_def warm1_def)
  have t4: "tier ([old_hot, warm1, warm2, old_archived, cold3] ! 4) = Cold"
    by (simp add: cold3_def warm1_def)
  from cluster_groups [of "[old_hot, warm1]" no_config] m h3
  have h4: "cluster [old_hot, warm1] no_config = []" by blast
  from cluster_groups [of "[old_hot, warm1, warm2, old_archived, cold3]" no_config]
  have "real (length [1, 2, 4 :: nat]) \<ge> 3"
    unfolding h m by simp
  moreover from cluster_groups [of "[warm1, warm1\<lparr>embedding := [0, 1]\<rparr>]" "no_config\<lparr>minClusterSize := Given 1\<rparr>"]
  have "set ([[0], [1 :: nat]] ! 0) \<inter> set ([[0], [1]] ! 1) = {}"
    unfolding h2 by simp
  ultimately show ?thesis using h h2 m h3 h4 t4 by blast
qed

subsection \<open>Identifiers\<close>

lemma filter_index_subseq: "subseq (filter_index p xs) xs"
  unfolding filter_index_nths subseq_conv_nths by blast

lemma findIndex_Some: "findIndex p xs = Some k \<Longrightarrow> k < length xs \<and> p (xs ! k)"
  by (induction xs arbitrary: k) (auto split: if_splits)

lemma id_m_merged_record [simp]: "id_m (merged_record r t mx n stamp) = id_m r"
  by (simp add: merged_record_def)

lemma map_update_same: "k < length xs \<Longrightarrow> f y = f (xs ! k) \<Longrightarrow> map f (xs[k := y]) = map f xs"
  by (simp add: map_update list_update_same_conv)

lemma summarize_group_ids:
  "summarize_group rnd ms summ nowIso g st s = Inr (st', s') \<Longrightarrow>
   map id_m (result st') = map id_m (result st)"
  unfolding summarize_group_def Let_def
  by (auto split: if_splits prod.splits summary_result.splits list.splits option.splits
      dest!: findIndex_Some simp: map_update_same)

lemma summarize_loop_ids:
  "summarize_loop rnd ms summ nowIso cs st s = Inr (st', s') \<Longrightarrow>
   map id_m (result st') = map id_m (result st)"
proof (induction cs arbitrary: st s)
  case Nil
  then show ?case by simp
next
  case (Cons g cs)
  then show ?case
    by (auto split: sum.splits dest!: summarize_group_ids)
qed

lemma summarize_group_total:
  "\<forall>i \<in> set g. i < length ms \<Longrightarrow> \<exists>st' s'. summarize_group rnd ms summ nowIso g st s = Inr (st', s')"
  unfolding summarize_group_def Let_def
  by (auto split: prod.splits summary_result.splits list.splits option.splits)

lemma summarize_loop_total:
  "\<forall>g \<in> set cs. \<forall>i \<in> set g. i < length ms \<Longrightarrow>
   \<exists>st' s'. summarize_loop rnd ms summ nowIso cs st s = Inr (st', s')"
proof (induction cs arbitrary: st s)
  case Nil
  then show ?case by simp
next
  case (Cons g cs)
  from Cons.prems obtain st1 s1 where "summarize_group rnd ms summ nowIso g st s = Inr (st1, s1)"
    using summarize_group_total [of g ms rnd summ nowIso st s] by auto
  moreover from Cons.prems Cons.IH [of st1 s1]
  obtain st' s' where "summarize_loop rnd ms summ nowIso cs st1 s1 = Inr (st', s')" by auto
  ultimately show ?case by simp
qed

lemma summarizeClusters_ids:
  "summarizeClusters rnd ms cs summ nowIso s = Inr ((out, merged), s') \<Longrightarrow>
   subseq (map id_m out) (map id_m ms)"
proof -
  assume a: "summarizeClusters rnd ms cs summ nowIso s = Inr ((out, merged), s')"
  then obtain st where l: "summarize_loop rnd ms summ nowIso cs \<lparr> result = ms, toRemove = {}, totalMerged = 0 \<rparr> s = Inr (st, s')"
    and o: "out = filter_index (\<lambda>i. i \<notin> toRemove st) (result st)"
    by (auto simp: summarizeClusters_def split: sum.splits)
  from summarize_loop_ids [OF l] have "map id_m (result st) = map id_m ms" by simp
  moreover have "subseq (map id_m out) (map id_m (result st))"
    unfolding o by (rule subseq_map) (rule filter_index_subseq)
  ultimately show ?thesis by simp
qed

lemma summarizeClusters_total:
  "\<forall>g \<in> set cs. \<forall>i \<in> set g. i < length ms \<Longrightarrow>
   \<exists>out merged s'. summarizeClusters rnd ms cs summ nowIso s = Inr ((out, merged), s')"
  using summarize_loop_total [of cs ms rnd summ nowIso "\<lparr> result = ms, toRemove = {}, totalMerged = 0 \<rparr>" s]
  by (auto simp: summarizeClusters_def)

lemma cluster_and_summarize_returns:
  "\<exists>ms' found merged s'.
     cluster_and_summarize rnd cfg cur summ nowIso s = Inr ((ms', found, merged), s') \<and>
     subseq (map id_m ms') (map id_m cur)"
proof (cases summ)
  case None
  then show ?thesis by (simp add: cluster_and_summarize_def)
next
  case (Some f)
  have "\<forall>g \<in> set (cluster cur (as_config cfg)). \<forall>i \<in> set g. i < length cur"
    using cluster_member by blast
  from summarizeClusters_total [OF this, of rnd f nowIso s]
  obtain out merged s' where
    r: "summarizeClusters rnd cur (cluster cur (as_config cfg)) f nowIso s = Inr ((out, merged), s')"
    by blast
  from summarizeClusters_ids [OF r] r Some show ?thesis
    by (simp add: cluster_and_summarize_def Let_def)
qed

lemma decay_ids: "map id_m (fst (decay rnd getTime now ms config)) = map id_m ms"
  by (simp add: decay_map spec_decay_record_def Let_def)

lemma archive_ids: "map id_m (fst (archive ms len)) = map id_m ms"
proof (cases "js_compare (\<le>) len (Some 0)")
  case True
  then show ?thesis by (simp add: archive_def)
next
  case False
  then show ?thesis by (simp add: archive_map archive_callback_def)
qed

lemma deduplicate_subseq: "subseq (fst (deduplicate rnd ms th)) ms"
  by (simp add: deduplicate_def Let_def filter_index_subseq)

lemma consolidate_returns:
  "\<exists>out rep s'. consolidate rnd getTime clock ms config summ nowIso s = Inr ((out, rep), s') \<and>
     subseq (map id_m out) (map id_m ms)"
proof -
  let ?cfg = "merge_config config"
  obtain c1 n1 where d: "decay rnd getTime (decayNow clock) ms (as_config ?cfg) = (c1, n1)"
    by (cases "decay rnd getTime (decayNow clock) ms (as_config ?cfg)") auto
  let ?th = "default_arg (92 / 100) (c_deduplicateThreshold ?cfg)"
  obtain c2 n2 where dd: "deduplicate rnd c1 ?th = (c2, n2)"
    by (cases "deduplicate rnd c1 ?th") auto
  obtain c3 found merged s' where
    cs: "cluster_and_summarize rnd ?cfg c2 summ nowIso s = Inr ((c3, found, merged), s')"
    and s3: "subseq (map id_m c3) (map id_m c2)"
    using cluster_and_summarize_returns [of rnd ?cfg c2 summ nowIso s] by blast
  obtain c4 n4 where a: "archive c3 (c_archiveTruncateLength ?cfg) = (c4, n4)"
    by (cases "archive c3 (c_archiveTruncateLength ?cfg)") auto
  have "map id_m c1 = map id_m ms"
    using decay_ids [of rnd getTime "decayNow clock" ms "as_config ?cfg"] d by simp
  moreover have "subseq (map id_m c2) (map id_m c1)"
    using deduplicate_subseq [of rnd c1 ?th] dd by (simp add: subseq_map)
  moreover have "map id_m c4 = map id_m c3" using archive_ids [of c3 "c_archiveTruncateLength ?cfg"] a by simp
  ultimately have "subseq (map id_m c4) (map id_m ms)"
    using s3 by (metis subseq_order.trans)
  then show ?thesis
    using d dd cs a by (simp add: consolidate_def Let_def)
qed

text \<open>
  Claim C10. The identifiers of the records returned by decay, deduplicate, forget and
  consolidate form a subsequence of the identifiers of the input records: no identifier is
  new, none is moved, none occurs more often than in the input. (Consolidate always
  returns.)
\<close>

theorem identifiers_subsequence:
  "subseq (map id_m (fst (decay rnd getTime now ms config))) (map id_m ms) \<and>
   subseq (map id_m (fst (deduplicate rnd ms th))) (map id_m ms) \<and>
   subseq (map id_m (fst (forget ms q th'))) (map id_m ms) \<and>
   (\<exists>out rep s'. consolidate rnd getTime clock ms config summ nowIso s = Inr ((out, rep), s') \<and>
      subseq (map id_m out) (map id_m ms))"
proof (intro conjI)
  show "subseq (map id_m (fst (decay rnd getTime now ms config))) (map id_m ms)"
    by (simp add: decay_ids)
  show "subseq (map id_m (fst (deduplicate rnd ms th))) (map id_m ms)"
    by (rule subseq_map) (rule deduplicate_subseq)
  show "subseq (map id_m (fst (forget ms q th'))) (map id_m ms)"
    by (rule subseq_map) (simp add: forget_def Let_def)
  show "\<exists>out rep s'. consolidate rnd getTime clock ms config summ nowIso s = Inr ((out, rep), s') \<and>
      subseq (map id_m out) (map id_m ms)"
    by (rule consolidate_returns)
qed

theorem identifiers_subsequence_witness:
  "subseq (map id_m (fst (decay exact epoch 864000000 [old_hot, warm1, warm2, old_archived, cold3] no_config)))
     (map id_m [old_hot, warm1, warm2, old_archived, cold3]) \<and>
   subseq (map id_m (fst (deduplicate exact [old_hot, warm1, warm2, old_archived, cold3] (92 / 100))))
     (map id_m [old_hot, warm1, warm2, old_archived, cold3]) \<and>
   subseq (map id_m (fst (forget [old_hot, warm1, warm2, old_archived, cold3] [1, 0] (7 / 10))))
     (map id_m [old_hot, warm1, warm2, old_archived, cold3]) \<and>
   (\<exists>out rep s'. consolidate exact epoch clock0 [old_hot, warm1, warm2, old_archived, cold3] no_config
        (Some fixed_summarizer) stamp0 () = Inr ((out, rep), s') \<and>
      subseq (map id_m out) (map id_m [old_hot, warm1, warm2, old_archived, cold3]))"
  by (rule identifiers_subsequence)

subsection \<open>Summarize\<close>

lemma foldl_better_in: "foldl (better rnd ms) a xs \<in> set (a # xs)"
proof (induction xs arbitrary: a)
  case Nil
  then show ?case by simp
next
  case (Cons x xs)
  from Cons.IH [of "better rnd ms a x"] show ?case
    by (auto simp: better_def split: if_splits)
qed

lemma best_of_in: "g \<noteq> [] \<Longrightarrow> best_of rnd ms g \<in> set g"
  using foldl_better_in [of rnd ms "hd g" "tl g"] by (cases g) (simp_all add: best_of_def)




lemma foldl_max_Max: "foldl max (x :: real) xs = Max (set (x # xs))"
proof -
  have "(\<lambda>(y :: real) s. max s y) = max" by (intro ext) (simp add: max.commute)
  then have "foldl max x xs = fold max xs x" by (simp add: foldl_conv_fold)
  then show ?thesis using Max.set_eq_fold [of x xs] by simp
qed

lemma set_uniq_acc:
  "set (foldl (\<lambda>acc x. if x \<in> set acc then acc else acc @ [x]) acc xs) = set acc \<union> set xs"
  by (induction xs arbitrary: acc) auto

lemma set_uniq [simp]: "set (uniq xs) = set xs"
  by (simp add: uniq_def set_uniq_acc)

lemma findIndex_distinct:
  "distinct (map f xs) \<Longrightarrow> k < length xs \<Longrightarrow> findIndex (\<lambda>x. f x = f (xs ! k)) xs = Some k"
proof (induction xs arbitrary: k)
  case Nil
  then show ?case by simp
next
  case (Cons x xs)
  show ?case
  proof (cases k)
    case 0
    then show ?thesis by simp
  next
    case (Suc k')
    with Cons.prems have "k' < length xs" "f (xs ! k') \<in> f ` set xs" "f x \<notin> f ` set xs" by auto
    then have "f x \<noteq> f (xs ! k')" by metis
    with Cons.IH [of k'] Cons.prems Suc show ?thesis by simp
  qed
qed

lemma summarize_group_skip:
  "\<forall>i \<in> set g. i < length ms \<Longrightarrow> summ s (texts_of ms g) = (r, s1) \<Longrightarrow> \<not> accepted r \<Longrightarrow>
   summarize_group rnd ms summ nowIso g st s = Inr (st, s1)"
  by (cases r) (auto simp: summarize_group_def texts_of_def Let_def)

lemma summarize_group_merge:
  assumes "\<forall>i \<in> set g. i < length ms" "g \<noteq> []"
    and "distinct (map id_m ms)" "map id_m (result st) = map id_m ms"
    and "summ s (texts_of ms g) = (Resolved t, s1)" "accepted (Resolved t)"
  shows "summarize_group rnd ms summ nowIso g st s =
     Inr (\<lparr> result = (result st)[best_of rnd ms g :=
                merged_record (result st ! best_of rnd ms g) t
                  (Max ((\<lambda>i. importance (ms ! i)) ` set g)) (length g) (nowIso s1)],
             toRemove = toRemove st \<union> (set g - {best_of rnd ms g}),
             totalMerged = totalMerged st + (length g - 1) \<rparr>, s1)"
proof -
  obtain a rest where g: "g = a # rest" using assms(2) by (cases g) auto
  let ?b = "best_of rnd ms g"
  have b: "?b = foldl (better rnd ms) a rest" by (simp add: best_of_def g)
  have bl: "?b < length ms" using best_of_in [OF assms(2)] assms(1) by blast
  then have bl': "?b < length (result st)" using assms(4) by (metis length_map)
  have "id_m (ms ! ?b) = id_m (result st ! ?b)"
    using assms(4) bl bl' by (metis nth_map)
  moreover have "distinct (map id_m (result st))" using assms(3,4) by simp
  ultimately have fi: "findIndex (\<lambda>m. id_m m = id_m (ms ! ?b)) (result st) = Some ?b"
    using findIndex_distinct [of id_m "result st" ?b] bl' by simp
  have mx: "foldl max (importance (ms ! hd g)) (map (\<lambda>i. importance (ms ! i)) (tl g)) =
     Max ((\<lambda>i. importance (ms ! i)) ` set g)"
    by (simp add: foldl_max_Max g)
  have t: "t \<noteq> []" "\<not> length t < 10" using assms(6) by auto
  have v: "\<not> (\<exists>i \<in> set g. \<not> i < length ms)" using assms(1) by blast
  have rm: "set (filter (\<lambda>idx. idx \<noteq> ?b) g) = set g - {?b}" by auto
  have tx: "map (\<lambda>i. content (ms ! i)) g = texts_of ms g" by (simp add: texts_of_def)
  show ?thesis
    unfolding summarize_group_def Let_def tx list.case_eq_if best_of_def [symmetric]
    by (simp add: v assms(5) t fi mx rm assms(2) del: set_filter)
qed

lemma outcomes_Nil [simp]: "outcomes summ s ms [] = []"
  by (simp add: outcomes_def)

lemma outcomes_Cons:
  "summ s (texts_of ms g) = (r, s1) \<Longrightarrow>
   outcomes summ s ms (g # gs) = (g, r, s1) # outcomes summ s1 ms gs"
  by (simp add: outcomes_def)

lemma map_fst_outcomes: "map fst (outcomes summ s ms cs) = cs"
proof (induction cs arbitrary: s)
  case Nil
  then show ?case by simp
next
  case (Cons g cs)
  obtain r s1 where "summ s (texts_of ms g) = (r, s1)" by (cases "summ s (texts_of ms g)") auto
  with Cons.IH [of s1] show ?case by (simp add: outcomes_Cons)
qed

lemma outcomes_mem: "(g, r, s1) \<in> set (outcomes summ s ms cs) \<Longrightarrow> g \<in> set cs"
  using map_fst_outcomes [of summ s ms cs] by (metis fst_conv image_eqI set_map)

lemma merged_count_Cons [simp]:
  "merged_count ((g, r, s1) # os) = (if accepted r then length g - 1 else 0) + merged_count os"
  by (simp add: merged_count_def)

lemma merged_away_Cons [simp]:
  "merged_away rnd ms ((g, r, s1) # os) =
     (if accepted r then set g - {best_of rnd ms g} else {}) \<union> merged_away rnd ms os"
  by (simp add: merged_away_def)

lemma merged_count_Nil [simp]: "merged_count [] = 0"
  by (simp add: merged_count_def)

lemma merged_away_Nil [simp]: "merged_away rnd ms [] = {}"
  by (simp add: merged_away_def)

lemma summarize_loop_main:
  assumes dist: "distinct (map id_m ms)"
  shows "\<forall>g \<in> set cs. g \<noteq> [] \<and> (\<forall>i \<in> set g. i < length ms) \<Longrightarrow>
    distinct (concat cs) \<Longrightarrow>
    map id_m (result st) = map id_m ms \<Longrightarrow>
    \<forall>i \<in> set (concat cs). result st ! i = ms ! i \<Longrightarrow>
    \<exists>st' s'. summarize_loop rnd ms summ nowIso cs st s = Inr (st', s') \<and>
      map id_m (result st') = map id_m ms \<and>
      totalMerged st' = totalMerged st + merged_count (outcomes summ s ms cs) \<and>
      toRemove st' = toRemove st \<union> merged_away rnd ms (outcomes summ s ms cs) \<and>
      (\<forall>p. (\<forall>g r s1. (g, r, s1) \<in> set (outcomes summ s ms cs) \<longrightarrow> accepted r \<longrightarrow> p \<noteq> best_of rnd ms g)
         \<longrightarrow> result st' ! p = result st ! p) \<and>
      (\<forall>g t s1. (g, Resolved t, s1) \<in> set (outcomes summ s ms cs) \<longrightarrow> accepted (Resolved t) \<longrightarrow>
         result st' ! best_of rnd ms g =
           merged_record (ms ! best_of rnd ms g) t (Max ((\<lambda>i. importance (ms ! i)) ` set g))
             (length g) (nowIso s1))"
proof (induction cs arbitrary: st s)
  case Nil
  then show ?case by simp
next
  case (Cons g gs)
  obtain r s1 where rs: "summ s (texts_of ms g) = (r, s1)"
    by (cases "summ s (texts_of ms g)") auto
  have oc: "outcomes summ s ms (g # gs) = (g, r, s1) # outcomes summ s1 ms gs"
    using rs by (rule outcomes_Cons)
  let ?os = "outcomes summ s1 ms gs"
  let ?b = "best_of rnd ms g"
  from Cons.prems(1) have gne: "g \<noteq> []" and gv: "\<forall>i \<in> set g. i < length ms"
    and gsv: "\<forall>g \<in> set gs. g \<noteq> [] \<and> (\<forall>i \<in> set g. i < length ms)" by simp_all
  from Cons.prems(2) have gsd: "distinct (concat gs)"
    and disj: "set g \<inter> set (concat gs) = {}" by auto
  have bg: "?b \<in> set g" by (rule best_of_in [OF gne])
  have others: "?b \<noteq> best_of rnd ms g'" if "(g', r', s') \<in> set ?os" for g' r' s'
  proof -
    from that have "g' \<in> set gs" by (rule outcomes_mem)
    with gsv have "best_of rnd ms g' \<in> set g'" by (simp add: best_of_in)
    with \<open>g' \<in> set gs\<close> have "best_of rnd ms g' \<in> set (concat gs)" by auto
    with bg disj show ?thesis by auto
  qed
  show ?case
  proof (cases "accepted r")
    case False
    have step: "summarize_group rnd ms summ nowIso g st s = Inr (st, s1)"
      using gv rs False by (rule summarize_group_skip)
    from Cons.prems(4) have i2: "\<forall>i \<in> set (concat gs). result st ! i = ms ! i" by simp
    from Cons.IH [OF gsv gsd Cons.prems(3) i2, of s1] obtain st' s' where
      l: "summarize_loop rnd ms summ nowIso gs st s1 = Inr (st', s')"
      and r0: "map id_m (result st') = map id_m ms"
      and r1: "totalMerged st' = totalMerged st + merged_count ?os"
      and r2: "toRemove st' = toRemove st \<union> merged_away rnd ms ?os"
      and r3: "\<forall>p. (\<forall>g r s1. (g, r, s1) \<in> set ?os \<longrightarrow> accepted r \<longrightarrow> p \<noteq> best_of rnd ms g)
         \<longrightarrow> result st' ! p = result st ! p"
      and r4: "\<forall>g t s1. (g, Resolved t, s1) \<in> set ?os \<longrightarrow> accepted (Resolved t) \<longrightarrow>
         result st' ! best_of rnd ms g =
           merged_record (ms ! best_of rnd ms g) t (Max ((\<lambda>i. importance (ms ! i)) ` set g))
             (length g) (nowIso s1)"
      by blast
    have "summarize_loop rnd ms summ nowIso (g # gs) st s = Inr (st', s')"
      using step l by simp
    moreover have "totalMerged st' = totalMerged st + merged_count (outcomes summ s ms (g # gs))"
      using r1 False by (simp add: oc)
    moreover have "toRemove st' = toRemove st \<union> merged_away rnd ms (outcomes summ s ms (g # gs))"
      using r2 False by (simp add: oc)
    moreover have "\<forall>p. (\<forall>g' r' s1'. (g', r', s1') \<in> set (outcomes summ s ms (g # gs)) \<longrightarrow> accepted r' \<longrightarrow> p \<noteq> best_of rnd ms g')
         \<longrightarrow> result st' ! p = result st ! p"
    proof (intro allI impI)
      fix p
      assume "\<forall>g' r' s1'. (g', r', s1') \<in> set (outcomes summ s ms (g # gs)) \<longrightarrow> accepted r' \<longrightarrow> p \<noteq> best_of rnd ms g'"
      then have "\<forall>g r s1. (g, r, s1) \<in> set ?os \<longrightarrow> accepted r \<longrightarrow> p \<noteq> best_of rnd ms g"
        unfolding oc by auto
      with r3 show "result st' ! p = result st ! p" by blast
    qed
    moreover have "\<forall>g' t s1'. (g', Resolved t, s1') \<in> set (outcomes summ s ms (g # gs)) \<longrightarrow> accepted (Resolved t) \<longrightarrow>
         result st' ! best_of rnd ms g' =
           merged_record (ms ! best_of rnd ms g') t (Max ((\<lambda>i. importance (ms ! i)) ` set g'))
             (length g') (nowIso s1')"
      using r4 False unfolding oc by auto
    ultimately show ?thesis using r0 by blast
  next
    case True
    then obtain t where rt: "r = Resolved t" by (cases r) auto
    define st1 where "st1 = \<lparr> result = (result st)[?b :=
                merged_record (result st ! ?b) t
                  (Max ((\<lambda>i. importance (ms ! i)) ` set g)) (length g) (nowIso s1)],
             toRemove = toRemove st \<union> (set g - {?b}),
             totalMerged = totalMerged st + (length g - 1) \<rparr>"
    have step: "summarize_group rnd ms summ nowIso g st s = Inr (st1, s1)"
      unfolding st1_def
      using gv gne dist Cons.prems(3) rs [unfolded rt] True [unfolded rt]
      by (rule summarize_group_merge)
    have i1: "map id_m (result st1) = map id_m ms"
      using summarize_group_ids [OF step] Cons.prems(3) by simp
    have bl: "?b < length (result st)"
      using bg gv Cons.prems(3) by (metis length_map)
    have i2: "\<forall>i \<in> set (concat gs). result st1 ! i = ms ! i"
    proof
      fix i assume i: "i \<in> set (concat gs)"
      with bg disj have "i \<noteq> ?b" by auto
      then have "result st1 ! i = result st ! i" by (simp add: st1_def)
      with Cons.prems(4) i show "result st1 ! i = ms ! i" by simp
    qed
    have b1: "result st1 ! ?b = merged_record (ms ! ?b) t
                  (Max ((\<lambda>i. importance (ms ! i)) ` set g)) (length g) (nowIso s1)"
      using bl bg Cons.prems(4) by (simp add: st1_def)
    from Cons.IH [OF gsv gsd i1 i2, of s1] obtain st' s' where
      l: "summarize_loop rnd ms summ nowIso gs st1 s1 = Inr (st', s')"
      and r0: "map id_m (result st') = map id_m ms"
      and r1: "totalMerged st' = totalMerged st1 + merged_count ?os"
      and r2: "toRemove st' = toRemove st1 \<union> merged_away rnd ms ?os"
      and r3: "\<forall>p. (\<forall>g r s1. (g, r, s1) \<in> set ?os \<longrightarrow> accepted r \<longrightarrow> p \<noteq> best_of rnd ms g)
         \<longrightarrow> result st' ! p = result st1 ! p"
      and r4: "\<forall>g t s1. (g, Resolved t, s1) \<in> set ?os \<longrightarrow> accepted (Resolved t) \<longrightarrow>
         result st' ! best_of rnd ms g =
           merged_record (ms ! best_of rnd ms g) t (Max ((\<lambda>i. importance (ms ! i)) ` set g))
             (length g) (nowIso s1)"
      by blast
    have "summarize_loop rnd ms summ nowIso (g # gs) st s = Inr (st', s')"
      using step l by simp
    moreover have "totalMerged st' = totalMerged st + merged_count (outcomes summ s ms (g # gs))"
      using r1 True by (simp add: oc st1_def)
    moreover have "toRemove st' = toRemove st \<union> merged_away rnd ms (outcomes summ s ms (g # gs))"
      using r2 True by (simp add: oc st1_def Un_assoc)
    moreover have "\<forall>p. (\<forall>g' r' s1'. (g', r', s1') \<in> set (outcomes summ s ms (g # gs)) \<longrightarrow> accepted r' \<longrightarrow> p \<noteq> best_of rnd ms g')
         \<longrightarrow> result st' ! p = result st ! p"
    proof (intro allI impI)
      fix p
      assume a: "\<forall>g' r' s1'. (g', r', s1') \<in> set (outcomes summ s ms (g # gs)) \<longrightarrow> accepted r' \<longrightarrow> p \<noteq> best_of rnd ms g'"
      then have "p \<noteq> ?b" using True unfolding oc by auto
      then have "result st1 ! p = result st ! p" by (simp add: st1_def)
      moreover from a have "\<forall>g r s1. (g, r, s1) \<in> set ?os \<longrightarrow> accepted r \<longrightarrow> p \<noteq> best_of rnd ms g"
        unfolding oc by auto
      with r3 have "result st' ! p = result st1 ! p" by blast
      ultimately show "result st' ! p = result st ! p" by simp
    qed
    moreover have "\<forall>g' t' s1'. (g', Resolved t', s1') \<in> set (outcomes summ s ms (g # gs)) \<longrightarrow> accepted (Resolved t') \<longrightarrow>
         result st' ! best_of rnd ms g' =
           merged_record (ms ! best_of rnd ms g') t' (Max ((\<lambda>i. importance (ms ! i)) ` set g'))
             (length g') (nowIso s1')"
    proof (intro allI impI)
      fix g' t' s1'
      assume m: "(g', Resolved t', s1') \<in> set (outcomes summ s ms (g # gs))"
        and acc: "accepted (Resolved t')"
      from m have "(g', Resolved t', s1') = (g, r, s1) \<or> (g', Resolved t', s1') \<in> set ?os"
        unfolding oc by simp
      then show "result st' ! best_of rnd ms g' =
           merged_record (ms ! best_of rnd ms g') t' (Max ((\<lambda>i. importance (ms ! i)) ` set g'))
             (length g') (nowIso s1')"
      proof
        assume h: "(g', Resolved t', s1') = (g, r, s1)"
        have "result st' ! ?b = result st1 ! ?b"
          using r3 others by blast
        with b1 h rt show ?thesis by simp
      next
        assume "(g', Resolved t', s1') \<in> set ?os"
        with r4 acc show ?thesis by blast
      qed
    qed
    ultimately show ?thesis using r0 by blast
  qed
qed

lemma distinct_concat_share:
  "distinct (concat cs) \<Longrightarrow> g \<in> set cs \<Longrightarrow> g' \<in> set cs \<Longrightarrow> i \<in> set g \<Longrightarrow> i \<in> set g' \<Longrightarrow> g = g'"
  by (induction cs) auto

lemma distinct_concat_groups:
  "distinct (concat cs) \<Longrightarrow> \<forall>g \<in> set cs. g \<noteq> [] \<Longrightarrow> distinct cs"
proof (induction cs)
  case Nil
  show ?case by simp
next
  case (Cons g cs)
  from Cons.prems(1) have d: "distinct (concat cs)" and dj: "set g \<inter> set (concat cs) = {}"
    by simp_all
  from Cons.prems(2) have ne: "\<forall>g \<in> set cs. g \<noteq> []" and gne: "g \<noteq> []"
    by simp_all
  have "g \<notin> set cs"
  proof
    assume "g \<in> set cs"
    then have "set g \<subseteq> set (concat cs)" by auto
    then have "set g \<inter> set (concat cs) = set g" by (rule inf.absorb1)
    with dj have "set g = {}" by simp
    with gne show False by simp
  qed
  moreover have "distinct cs" using d ne by (rule Cons.IH)
  ultimately show ?case by simp
qed

lemma outcomes_unique:
  assumes "distinct (concat cs)" "\<forall>g \<in> set cs. g \<noteq> []"
    and "(g, r, s1) \<in> set (outcomes summ s ms cs)" "(g, r', s1') \<in> set (outcomes summ s ms cs)"
  shows "r = r'"
proof -
  have "distinct (map fst (outcomes summ s ms cs))"
    using distinct_concat_groups [OF assms(1,2)] by (simp add: map_fst_outcomes)
  from eq_key_imp_eq_value [OF this assms(3) assms(4)] show ?thesis by simp
qed

lemma merged_away_iff:
  "i \<in> merged_away rnd ms os \<longleftrightarrow>
     (\<exists>g r s1. (g, r, s1) \<in> set os \<and> accepted r \<and> i \<in> set g \<and> i \<noteq> best_of rnd ms g)"
proof
  assume "i \<in> merged_away rnd ms os"
  then obtain x where x: "x \<in> set os"
    and i: "i \<in> (case x of (g, r, s1) \<Rightarrow> if accepted r then set g - {best_of rnd ms g} else {})"
    unfolding merged_away_def by blast
  obtain g r s1 where "x = (g, r, s1)" by (cases x) auto
  with x i have "(g, r, s1) \<in> set os \<and> accepted r \<and> i \<in> set g \<and> i \<noteq> best_of rnd ms g"
    by (simp split: if_splits)
  then show "\<exists>g r s1. (g, r, s1) \<in> set os \<and> accepted r \<and> i \<in> set g \<and> i \<noteq> best_of rnd ms g"
    by blast
next
  assume "\<exists>g r s1. (g, r, s1) \<in> set os \<and> accepted r \<and> i \<in> set g \<and> i \<noteq> best_of rnd ms g"
  then obtain g r s1 where "(g, r, s1) \<in> set os" "accepted r" "i \<in> set g" "i \<noteq> best_of rnd ms g"
    by blast
  then show "i \<in> merged_away rnd ms os"
    unfolding merged_away_def by (intro UN_I [of "(g, r, s1)"]) simp_all
qed

text \<open>The merge phase on clusters that are in range, non-empty and disjoint.\<close>

lemma summarizeClusters_main:
  assumes dist: "distinct (map id_m ms)"
    and valid: "\<forall>g \<in> set cs. g \<noteq> [] \<and> (\<forall>i \<in> set g. i < length ms)"
    and disj: "distinct (concat cs)"
  shows "\<exists>out merged s'. summarizeClusters rnd ms cs summ nowIso s = Inr ((out, merged), s') \<and>
     merged = merged_count (outcomes summ s ms cs) \<and>
     (\<forall>g r s1. (g, r, s1) \<in> set (outcomes summ s ms cs) \<longrightarrow> \<not> accepted r \<longrightarrow>
        (\<forall>i \<in> set g. ms ! i \<in> set out)) \<and>
     (\<forall>g t s1. (g, Resolved t, s1) \<in> set (outcomes summ s ms cs) \<longrightarrow> accepted (Resolved t) \<longrightarrow>
        merged_record (ms ! best_of rnd ms g) t (Max ((\<lambda>i. importance (ms ! i)) ` set g))
          (length g) (nowIso s1) \<in> set out \<and>
        (\<forall>i \<in> set g. i \<noteq> best_of rnd ms g \<longrightarrow> id_m (ms ! i) \<notin> id_m ` set out))"
proof -
  let ?st0 = "\<lparr> result = ms, toRemove = {}, totalMerged = 0 \<rparr>"
  let ?os = "outcomes summ s ms cs"
  have "map id_m (result ?st0) = map id_m ms" "\<forall>i \<in> set (concat cs). result ?st0 ! i = ms ! i"
    by simp_all
  from summarize_loop_main [OF dist valid disj this, of rnd summ nowIso s] obtain st' s' where
    l: "summarize_loop rnd ms summ nowIso cs ?st0 s = Inr (st', s')"
    and r0: "map id_m (result st') = map id_m ms"
    and r1: "totalMerged st' = merged_count ?os"
    and r2: "toRemove st' = merged_away rnd ms ?os"
    and r3: "\<forall>p. (\<forall>g r s1. (g, r, s1) \<in> set ?os \<longrightarrow> accepted r \<longrightarrow> p \<noteq> best_of rnd ms g)
         \<longrightarrow> result st' ! p = ms ! p"
    and r4: "\<forall>g t s1. (g, Resolved t, s1) \<in> set ?os \<longrightarrow> accepted (Resolved t) \<longrightarrow>
         result st' ! best_of rnd ms g =
           merged_record (ms ! best_of rnd ms g) t (Max ((\<lambda>i. importance (ms ! i)) ` set g))
             (length g) (nowIso s1)"
    by auto
  define out where "out = filter_index (\<lambda>i. i \<notin> toRemove st') (result st')"
  have sc: "summarizeClusters rnd ms cs summ nowIso s = Inr ((out, merged_count ?os), s')"
    using l r1 by (simp add: summarizeClusters_def out_def)
  have len: "length (result st') = length ms"
    using r0 by (metis length_map)
  have so: "set out = {result st' ! p | p. p < length ms \<and> p \<notin> merged_away rnd ms ?os}"
    by (simp add: out_def filter_index_nths set_nths len r2)
  have ingrp: "g \<in> set cs" if "(g, r, s1) \<in> set ?os" for g r s1
    using that by (rule outcomes_mem)
  have kept: "\<forall>i \<in> set g. ms ! i \<in> set out"
    if m: "(g, r, s1) \<in> set ?os" and na: "\<not> accepted r" for g r s1
  proof
    fix i assume i: "i \<in> set g"
    have other: "i \<notin> set g'" if m': "(g', r', s1') \<in> set ?os" and a': "accepted r'" for g' r' s1'
    proof
      assume "i \<in> set g'"
      with disj ingrp [OF m] ingrp [OF m'] i have "g = g'" by (rule distinct_concat_share)
      with outcomes_unique [OF disj _ m] m' valid have "r = r'" by blast
      with na a' show False by simp
    qed
    have "i \<notin> merged_away rnd ms ?os"
      unfolding merged_away_iff using other by blast
    moreover have "result st' ! i = ms ! i"
    proof -
      have "i \<noteq> best_of rnd ms g'" if m': "(g', r', s1') \<in> set ?os" and a': "accepted r'" for g' r' s1'
        using other [OF m' a'] best_of_in [of g' rnd ms] valid ingrp [OF m'] by auto
      with r3 show ?thesis by blast
    qed
    moreover have "i < length ms" using valid ingrp [OF m] i by blast
    ultimately have "ms ! i = result st' ! i \<and> i < length ms \<and> i \<notin> merged_away rnd ms ?os"
      by simp
    then show "ms ! i \<in> set out" unfolding so by blast
  qed
  have rep: "merged_record (ms ! best_of rnd ms g) t (Max ((\<lambda>i. importance (ms ! i)) ` set g))
          (length g) (nowIso s1) \<in> set out \<and>
        (\<forall>i \<in> set g. i \<noteq> best_of rnd ms g \<longrightarrow> id_m (ms ! i) \<notin> id_m ` set out)"
    if m: "(g, Resolved t, s1) \<in> set ?os" and a: "accepted (Resolved t)" for g t s1
  proof
    let ?b = "best_of rnd ms g"
    have gin: "g \<in> set cs" by (rule ingrp [OF m])
    with valid have bg: "?b \<in> set g" by (simp add: best_of_in)
    with valid gin have bl: "?b < length ms" by blast
    have "?b \<notin> merged_away rnd ms ?os"
    proof
      assume "?b \<in> merged_away rnd ms ?os"
      then obtain g' r' s1' where m': "(g', r', s1') \<in> set ?os" and "accepted r'"
        and b': "?b \<in> set g'" "?b \<noteq> best_of rnd ms g'"
        unfolding merged_away_iff by blast
      from disj gin ingrp [OF m'] bg b'(1) have "g = g'" by (rule distinct_concat_share)
      with b'(2) show False by simp
    qed
    moreover have "result st' ! ?b = merged_record (ms ! ?b) t (Max ((\<lambda>i. importance (ms ! i)) ` set g))
          (length g) (nowIso s1)"
      using r4 m a by blast
    ultimately have "merged_record (ms ! ?b) t (Max ((\<lambda>i. importance (ms ! i)) ` set g))
          (length g) (nowIso s1) = result st' ! ?b \<and> ?b < length ms \<and> ?b \<notin> merged_away rnd ms ?os"
      using bl by simp
    then show "merged_record (ms ! ?b) t (Max ((\<lambda>i. importance (ms ! i)) ` set g))
          (length g) (nowIso s1) \<in> set out"
      unfolding so by blast
    show "\<forall>i \<in> set g. i \<noteq> ?b \<longrightarrow> id_m (ms ! i) \<notin> id_m ` set out"
    proof (intro ballI impI)
      fix i assume i: "i \<in> set g" "i \<noteq> ?b"
      with m a have ia: "i \<in> merged_away rnd ms ?os"
        unfolding merged_away_iff by blast
      from i valid gin have il: "i < length ms" by blast
      show "id_m (ms ! i) \<notin> id_m ` set out"
      proof
        assume "id_m (ms ! i) \<in> id_m ` set out"
        then obtain p where p: "p < length ms" "p \<notin> merged_away rnd ms ?os"
          and e: "id_m (ms ! i) = id_m (result st' ! p)"
          unfolding so by auto
        from p(1) len r0 have "id_m (result st' ! p) = id_m (ms ! p)"
          by (metis nth_map)
        with e have "map id_m ms ! i = map id_m ms ! p" using il p(1) by simp
        with dist il p(1) have "i = p" by (metis length_map nth_eq_iff_index_eq)
        with ia p(2) show False by simp
      qed
    qed
  qed
  have k': "\<forall>g r s1. (g, r, s1) \<in> set ?os \<longrightarrow> \<not> accepted r \<longrightarrow> (\<forall>i \<in> set g. ms ! i \<in> set out)"
    using kept by blast
  have r': "\<forall>g t s1. (g, Resolved t, s1) \<in> set ?os \<longrightarrow> accepted (Resolved t) \<longrightarrow>
        merged_record (ms ! best_of rnd ms g) t (Max ((\<lambda>i. importance (ms ! i)) ` set g))
          (length g) (nowIso s1) \<in> set out \<and>
        (\<forall>i \<in> set g. i \<noteq> best_of rnd ms g \<longrightarrow> id_m (ms ! i) \<notin> id_m ` set out)"
    using rep by blast
  show ?thesis
    by (rule exI [of _ out], rule exI [of _ "merged_count ?os"], rule exI [of _ s'])
      (intro conjI sc refl k' r')
qed

lemma summarize_group_count:
  assumes "\<forall>i \<in> set g. i < length ms" "g \<noteq> []" "summ s (texts_of ms g) = (r, s1)"
  shows "\<exists>st'. summarize_group rnd ms summ nowIso g st s = Inr (st', s1) \<and>
     totalMerged st' = totalMerged st + (if accepted r then length g - 1 else 0)"
proof (cases "accepted r")
  case False
  with assms(1,3) have "summarize_group rnd ms summ nowIso g st s = Inr (st, s1)"
    by (rule summarize_group_skip)
  with False show ?thesis by simp
next
  case True
  then obtain t where rt: "r = Resolved t" and t10: "10 \<le> length t"
    by (cases r) auto
  then have t: "t \<noteq> []" "\<not> length t < 10" by auto
  obtain a rest where g: "g = a # rest" using assms(2) by (cases g) auto
  have v: "\<not> (\<exists>i \<in> set g. \<not> i < length ms)" using assms(1) by blast
  have tx: "map (\<lambda>i. content (ms ! i)) g = texts_of ms g" by (simp add: texts_of_def)
  show ?thesis
    unfolding summarize_group_def Let_def tx
    using v assms(3) t True rt by (simp add: g)
qed

lemma summarize_loop_count:
  "\<forall>g \<in> set cs. g \<noteq> [] \<and> (\<forall>i \<in> set g. i < length ms) \<Longrightarrow>
   \<exists>st' s'. summarize_loop rnd ms summ nowIso cs st s = Inr (st', s') \<and>
     totalMerged st' = totalMerged st + merged_count (outcomes summ s ms cs)"
proof (induction cs arbitrary: st s)
  case Nil
  then show ?case by simp
next
  case (Cons g gs)
  obtain r s1 where rs: "summ s (texts_of ms g) = (r, s1)"
    by (cases "summ s (texts_of ms g)") auto
  have oc: "outcomes summ s ms (g # gs) = (g, r, s1) # outcomes summ s1 ms gs"
    using rs by (rule outcomes_Cons)
  from Cons.prems have gv: "\<forall>i \<in> set g. i < length ms" and gne: "g \<noteq> []"
    and gsv: "\<forall>g \<in> set gs. g \<noteq> [] \<and> (\<forall>i \<in> set g. i < length ms)" by simp_all
  from summarize_group_count [where summ = summ and s = s, OF gv gne rs, of rnd nowIso st] obtain st1 where
    step: "summarize_group rnd ms summ nowIso g st s = Inr (st1, s1)"
    and c1: "totalMerged st1 = totalMerged st + (if accepted r then length g - 1 else 0)"
    by blast
  from Cons.IH [OF gsv, of st1 s1] obtain st' s' where
    l: "summarize_loop rnd ms summ nowIso gs st1 s1 = Inr (st', s')"
    and c: "totalMerged st' = totalMerged st1 + merged_count (outcomes summ s1 ms gs)"
    by blast
  have "summarize_loop rnd ms summ nowIso (g # gs) st s = Inr (st', s')"
    using step l by simp
  moreover have "totalMerged st' = totalMerged st + merged_count (outcomes summ s ms (g # gs))"
    using c c1 by (simp add: oc)
  ultimately show ?case by blast
qed

lemma summarizeClusters_count:
  assumes "\<forall>g \<in> set cs. g \<noteq> [] \<and> (\<forall>i \<in> set g. i < length ms)"
  shows "\<exists>out s'. summarizeClusters rnd ms cs summ nowIso s =
     Inr ((out, merged_count (outcomes summ s ms cs)), s')"
proof -
  from summarize_loop_count [OF assms, of rnd summ nowIso "\<lparr> result = ms, toRemove = {}, totalMerged = 0 \<rparr>" s]
  obtain st' s' where
    "summarize_loop rnd ms summ nowIso cs \<lparr> result = ms, toRemove = {}, totalMerged = 0 \<rparr> s = Inr (st', s')"
    "totalMerged st' = merged_count (outcomes summ s ms cs)"
    by auto
  then show ?thesis by (simp add: summarizeClusters_def)
qed

subsection \<open>The merge coordinator\<close>

lemma cluster_valid:
  "\<forall>g \<in> set (cluster ms config). g \<noteq> [] \<and> (\<forall>i \<in> set g. i < length ms)"
  using cluster_props [of ms config] cluster_member [of _ ms config] by blast

lemma cluster_two_groups: "cluster two_groups no_config = [[0, 1, 2], [3, 4, 5]]"
  by (simp add: cluster_def candidates_of_def no_config_def merge_config_def DEFAULTS_def
      two_groups_def warm1_def warm2_def cold3_def cosineSimilarity_def)

lemma outcomes_two_groups:
  "outcomes flaky_summarizer 0 two_groups [[0, 1, 2], [3, 4, 5]] =
     [([0, 1, 2], Rejected, 1), ([3, 4, 5], Resolved ''Summary of the cluster'', 2)]"
  by (simp add: outcomes_def flaky_summarizer_def)

lemma summarize_two_groups:
  "summarizeClusters exact two_groups [[0, 1, 2], [3, 4, 5]] flaky_summarizer stamp_nat 0 =
     Inr ((two_groups_merged, 2), 2)"
  by (simp add: two_groups_merged_def summarizeClusters_def summarize_group_def flaky_summarizer_def stamp_nat_def
      two_groups_def warm1_def warm2_def cold3_def better_def score_def exact_def merged_record_def uniq_def
      filter_index_def Let_def)








lemma not_accepted_iff:
  "\<not> accepted r \<longleftrightarrow> (r = Rejected \<or> (\<exists>t. r = Resolved t \<and> (t = [] \<or> length t < 10)))"
  by (cases r) auto

lemma decay_two_groups: "decay exact epoch 0 two_groups (as_config (merge_config no_dedup)) = (two_groups, 0)"
  by (simp add: decay_def decay_callback_def effectiveAge_def js_div_def exact_def epoch_def two_groups_def
      warm1_def warm2_def cold3_def Let_def as_config_def merge_config_def no_dedup_def no_config_def DEFAULTS_def)

lemma dedup_two_groups: "deduplicate exact two_groups 1 = (two_groups, 0)"
  by (simp add: deduplicate_def dedup_outer.simps dedup_inner.simps cosineSimilarity_def filter_index_def
      two_groups_def warm1_def warm2_def cold3_def)

lemma over_present [simp]: "over d (present v) = v"
  by (cases v) simp_all

lemma merge_as_config [simp]: "merge_config (as_config cfg) = cfg"
  by (simp add: merge_config_def as_config_def)

lemma cluster_two_groups': "cluster two_groups (as_config (merge_config no_dedup)) = [[0, 1, 2], [3, 4, 5]]"
  by (simp add: cluster_def candidates_of_def no_dedup_def no_config_def merge_config_def DEFAULTS_def
      as_config_def two_groups_def warm1_def warm2_def cold3_def cosineSimilarity_def)

lemma archive_two_groups: "archive two_groups_merged (Some 200) = (two_groups_merged, 0)"
  by (simp add: archive_def archive_callback_def two_groups_merged_def warm1_def warm2_def cold3_def)

lemma consolidate_two_groups:
  "\<exists>rep. consolidate exact epoch clock0 two_groups no_dedup (Some flaky_summarizer) stamp_nat 0 =
       Inr ((two_groups_merged, rep), 2) \<and>
     before_total rep = 6 \<and> after_total rep = 4 \<and> decayed rep = 0 \<and> deduplicated rep = 0 \<and>
     clustersFound rep = 2 \<and> summarized rep = 2 \<and> archived rep = 0"
proof -
  have c: "c_deduplicateThreshold (merge_config no_dedup) = Some 1"
    "c_archiveTruncateLength (merge_config no_dedup) = Some 200"
    by (simp_all add: no_dedup_def no_config_def merge_config_def DEFAULTS_def)
  have cs: "cluster_and_summarize exact (merge_config no_dedup) two_groups (Some flaky_summarizer) stamp_nat 0 =
    Inr ((two_groups_merged, 2, 2), 2)"
    unfolding cluster_and_summarize_def option.case Let_def cluster_two_groups' summarize_two_groups
    by simp
  show ?thesis
    unfolding consolidate_def Let_def
    by (simp add: clock0_def decay_two_groups c dedup_two_groups cs archive_two_groups)
      (simp add: two_groups_def two_groups_merged_def)
qed


lemma consolidate_total:
  "\<exists>res. consolidate rnd getTime clock ms config summ nowIso s = Inr res"
  using consolidate_returns [of rnd getTime clock ms config summ nowIso s] by blast

text \<open>
  Claim C2. When the Summarizer rejects or throws for a cluster, or resolves to an empty
  string or to fewer than 10 characters, the iteration for that cluster leaves the working
  records, the removal marks and the merged count as they were, and the loop goes on with
  the next cluster. In the result of the merge phase such a cluster adds 0 to the merged
  count, and every record of it is in the output as it was when the identifiers of the
  records are unique, as the data model has it. The call of \<^verbatim>\<open>consolidate\<close> returns a
  result, whatever the Summarizer does.
\<close>

theorem summarizer_failure_skips_cluster:
  "((\<forall>i \<in> set g. i < length ms) \<and> summ s (texts_of ms g) = (r, s1) \<and>
      (r = Rejected \<or> (\<exists>t. r = Resolved t \<and> (t = [] \<or> length t < 10))) \<longrightarrow>
      summarize_group rnd ms summ nowIso g st s = Inr (st, s1) \<and>
      summarize_loop rnd ms summ nowIso (g # gs) st s = summarize_loop rnd ms summ nowIso gs st s1) \<and>
   (\<exists>out merged s'.
      summarizeClusters rnd ms (cluster ms config) summ nowIso s = Inr ((out, merged), s') \<and>
      merged = merged_count (outcomes summ s ms (cluster ms config)) \<and>
      (\<forall>g r s1. (g, r, s1) \<in> set (outcomes summ s ms (cluster ms config)) \<and>
          (r = Rejected \<or> (\<exists>t. r = Resolved t \<and> (t = [] \<or> length t < 10))) \<longrightarrow>
          (if accepted r then length g - 1 else 0) = 0 \<and>
          (distinct (map id_m ms) \<longrightarrow> (\<forall>i \<in> set g. ms ! i \<in> set out)))) \<and>
   (\<exists>res. consolidate rnd getTime clock ms0 config0 summ0 nowIso s0 = Inr res)"
proof (intro conjI impI)
  assume a: "(\<forall>i \<in> set g. i < length ms) \<and> summ s (texts_of ms g) = (r, s1) \<and>
      (r = Rejected \<or> (\<exists>t. r = Resolved t \<and> (t = [] \<or> length t < 10)))"
  then have v: "\<forall>i \<in> set g. i < length ms" and rs: "summ s (texts_of ms g) = (r, s1)"
    and na: "\<not> accepted r"
    by (simp_all add: not_accepted_iff)
  from v rs na show step: "summarize_group rnd ms summ nowIso g st s = Inr (st, s1)"
    by (rule summarize_group_skip)
  then show "summarize_loop rnd ms summ nowIso (g # gs) st s = summarize_loop rnd ms summ nowIso gs st s1"
    by simp
next
  let ?cs = "cluster ms config"
  let ?os = "outcomes summ s ms ?cs"
  from summarizeClusters_count [OF cluster_valid, of rnd ms config summ nowIso s]
  obtain out s' where
    sc: "summarizeClusters rnd ms ?cs summ nowIso s = Inr ((out, merged_count ?os), s')"
    by blast
  have disj: "distinct (concat ?cs)" using cluster_props [of ms config] by blast
  have inner: "(if accepted r then length g - 1 else 0) = 0 \<and>
      (distinct (map id_m ms) \<longrightarrow> (\<forall>i \<in> set g. ms ! i \<in> set out))"
    if m: "(g, r, s1) \<in> set ?os \<and>
        (r = Rejected \<or> (\<exists>t. r = Resolved t \<and> (t = [] \<or> length t < 10)))" for g r s1
  proof
    from m have mo: "(g, r, s1) \<in> set ?os" and na: "\<not> accepted r"
      by (simp_all add: not_accepted_iff)
    from na show "(if accepted r then length g - 1 else 0) = 0" by simp
    show "distinct (map id_m ms) \<longrightarrow> (\<forall>i \<in> set g. ms ! i \<in> set out)"
    proof
      assume dist: "distinct (map id_m ms)"
      from summarizeClusters_main [OF dist cluster_valid disj, of rnd summ nowIso s]
      obtain out' merged' s'' where
        sc': "summarizeClusters rnd ms ?cs summ nowIso s = Inr ((out', merged'), s'')"
        and kept: "\<forall>g r s1. (g, r, s1) \<in> set ?os \<longrightarrow> \<not> accepted r \<longrightarrow>
          (\<forall>i \<in> set g. ms ! i \<in> set out')"
        by blast
      from sc sc' have oo: "out' = out" by simp
      show "\<forall>i \<in> set g. ms ! i \<in> set out"
        by (rule kept [rule_format, OF mo na, unfolded oo, THEN ballI]) 
    qed
  qed
  have "\<forall>g r s1. (g, r, s1) \<in> set ?os \<and>
          (r = Rejected \<or> (\<exists>t. r = Resolved t \<and> (t = [] \<or> length t < 10))) \<longrightarrow>
          (if accepted r then length g - 1 else 0) = 0 \<and>
          (distinct (map id_m ms) \<longrightarrow> (\<forall>i \<in> set g. ms ! i \<in> set out))"
    by (intro allI impI, rule inner)
  with sc show "\<exists>out merged s'.
      summarizeClusters rnd ms ?cs summ nowIso s = Inr ((out, merged), s') \<and>
      merged = merged_count ?os \<and>
      (\<forall>g r s1. (g, r, s1) \<in> set ?os \<and>
          (r = Rejected \<or> (\<exists>t. r = Resolved t \<and> (t = [] \<or> length t < 10))) \<longrightarrow>
          (if accepted r then length g - 1 else 0) = 0 \<and>
          (distinct (map id_m ms) \<longrightarrow> (\<forall>i \<in> set g. ms ! i \<in> set out)))"
    by (intro exI [of _ out] exI [of _ "merged_count ?os"] exI [of _ s'] conjI refl)
next
  show "\<exists>res. consolidate rnd getTime clock ms0 config0 summ0 nowIso s0 = Inr res"
    by (rule consolidate_total)
qed

theorem summarizer_failure_skips_cluster_witness:
  "list_all (\<lambda>i. i < length two_groups) [0, 1, 2] \<and>
   flaky_summarizer 0 (texts_of two_groups [0, 1, 2]) = (Rejected, 1) \<and>
   summarize_group exact two_groups flaky_summarizer stamp_nat [0, 1, 2]
     \<lparr> result = two_groups, toRemove = {}, totalMerged = 0 \<rparr> 0 =
     Inr (\<lparr> result = two_groups, toRemove = {}, totalMerged = 0 \<rparr>, 1) \<and>
   summarizeClusters exact two_groups (cluster two_groups no_config) flaky_summarizer stamp_nat 0 =
     Inr ((two_groups_merged, 2), 2) \<and>
   ([0, 1, 2], Rejected, 1) \<in> set (outcomes flaky_summarizer 0 two_groups (cluster two_groups no_config)) \<and>
   distinct (map id_m two_groups) \<and>
   list_all (\<lambda>i. two_groups ! i \<in> set two_groups_merged) [0, 1, 2] \<and>
   (\<exists>rep. consolidate exact epoch clock0 two_groups no_dedup (Some flaky_summarizer) stamp_nat 0 =
       Inr ((two_groups_merged, rep), 2) \<and> clustersFound rep = 2 \<and> summarized rep = 2)"
proof -
  have v: "\<forall>i \<in> set [0, 1, 2]. i < length two_groups"
    by (simp add: two_groups_def)
  have f: "flaky_summarizer 0 (texts_of two_groups [0, 1, 2]) = (Rejected, 1)"
    by (simp add: flaky_summarizer_def)
  have h: "distinct (map id_m two_groups)"
    by (simp add: two_groups_def warm1_def warm2_def cold3_def)
  have e: "summarizeClusters exact two_groups (cluster two_groups no_config) flaky_summarizer stamp_nat 0 =
     Inr ((two_groups_merged, 2), 2)"
    by (simp only: cluster_two_groups summarize_two_groups)
  have o: "([0, 1, 2], Rejected, 1) \<in> set (outcomes flaky_summarizer 0 two_groups (cluster two_groups no_config))"
    unfolding cluster_two_groups outcomes_two_groups by simp
  note t = summarizer_failure_skips_cluster [of "[0, 1, 2]" two_groups flaky_summarizer 0 Rejected 1
      exact stamp_nat "\<lparr> result = two_groups, toRemove = {}, totalMerged = 0 \<rparr>" "[[3, 4, 5]]" no_config
      epoch clock0 two_groups no_dedup "Some flaky_summarizer" 0]
  from t v f have step: "summarize_group exact two_groups flaky_summarizer stamp_nat [0, 1, 2]
     \<lparr> result = two_groups, toRemove = {}, totalMerged = 0 \<rparr> 0 =
     Inr (\<lparr> result = two_groups, toRemove = {}, totalMerged = 0 \<rparr>, 1)"
    by blast
  from t obtain out merged s' where
    a: "summarizeClusters exact two_groups (cluster two_groups no_config) flaky_summarizer stamp_nat 0 =
      Inr ((out, merged), s')"
    and k: "\<forall>g r s1. (g, r, s1) \<in> set (outcomes flaky_summarizer 0 two_groups (cluster two_groups no_config)) \<and>
             (r = Rejected \<or> (\<exists>t. r = Resolved t \<and> (t = [] \<or> length t < 10))) \<longrightarrow>
             (if accepted r then length g - 1 else 0) = 0 \<and>
             (distinct (map id_m two_groups) \<longrightarrow> (\<forall>i \<in> set g. two_groups ! i \<in> set out))"
    by blast
  from a e have oe: "out = two_groups_merged" by simp
  from k o h have "\<forall>i \<in> set [0, 1, 2]. two_groups ! i \<in> set two_groups_merged"
    unfolding oe by blast
  then have kept: "list_all (\<lambda>i. two_groups ! i \<in> set two_groups_merged) [0, 1, 2]"
    by (simp only: list_all_iff)
  from v have v': "list_all (\<lambda>i. i < length two_groups) [0, 1, 2]"
    by (simp only: list_all_iff)
  from consolidate_two_groups have c: "\<exists>rep. consolidate exact epoch clock0 two_groups no_dedup (Some flaky_summarizer) stamp_nat 0 =
       Inr ((two_groups_merged, rep), 2) \<and> clustersFound rep = 2 \<and> summarized rep = 2"
    by blast
  from v' f step e o h kept c show ?thesis by (intro conjI)
qed

subsection \<open>Records that share an identifier\<close>

text \<open>
  The hypothesis on the identifiers is needed. The merge finds the representative in the
  working copy by its identifier: when an earlier record has the same identifier, that
  record is rewritten instead. Here the representative is the second record; the first one
  receives the summary and is removed as a member of the cluster, and the representative
  stays as it was.
\<close>

lemma shared_identifier_example:
  "cluster shared_id no_config = [[0, 1, 2]] \<and>
   best_of exact shared_id [0, 1, 2] = 1 \<and>
   summarizeClusters exact shared_id [[0, 1, 2]] fixed_summarizer stamp0 () =
     Inr (([warm2\<lparr> id_m := ''w1'' \<rparr>], 2), ())"
proof (intro conjI)
  show "cluster shared_id no_config = [[0, 1, 2]]"
    by (simp add: cluster_def candidates_of_def no_config_def merge_config_def DEFAULTS_def
        shared_id_def warm1_def warm2_def cold3_def cosineSimilarity_def)
  show "best_of exact shared_id [0, 1, 2] = 1"
    by (simp add: best_of_def better_def score_def exact_def shared_id_def warm1_def warm2_def cold3_def)
  show "summarizeClusters exact shared_id [[0, 1, 2]] fixed_summarizer stamp0 () =
     Inr (([warm2\<lparr> id_m := ''w1'' \<rparr>], 2), ())"
    by (simp add: summarizeClusters_def summarize_group_def fixed_summarizer_def stamp0_def
        shared_id_def warm1_def warm2_def cold3_def better_def score_def exact_def merged_record_def uniq_def
        filter_index_def Let_def)
qed

end
